theory Spec2Isabelle
  imports Main
begin

section \<open>JSON localisation files of the Translate Toolkit (translate/storage/jsonl10n.py)\<close>

text \<open>
  A shallow embedding of \<^verbatim>\<open>jsonl10n.py\<close>: the parsed JSON tree, the translation
  units the stores extract from it, the value each unit writes back, and the merge that
  \<^verbatim>\<open>JsonFile.serialize\<close> uses to rebuild the tree.
\<close>

subsection \<open>Parsed JSON\<close>

text \<open>
  What \<^verbatim>\<open>json.loads(input, object_pairs_hook=OrderedDict)\<close> returns. An object
  is an \<^verbatim>\<open>OrderedDict\<close>: an association list in insertion order whose keys are
  distinct. Numbers with a fraction (Python floats) are outside the model.
\<close>

datatype json =
    JNull
  | JBool bool
  | JInt int
  | JStr string
  | JArr "json list"
  | JObj "(string \<times> json) list"

type_synonym odict = "(string \<times> json) list"

text \<open>\<^verbatim>\<open>d[k] = v\<close> on an ordered dictionary: an existing key keeps its place.\<close>

fun od_set :: "'k \<Rightarrow> 'v \<Rightarrow> ('k \<times> 'v) list \<Rightarrow> ('k \<times> 'v) list" where
  "od_set k v [] = [(k, v)]"
| "od_set k v ((k', v') # d) = (if k' = k then (k, v) # d else (k', v') # od_set k v d)"

text \<open>\<^verbatim>\<open>OrderedDict(pairs)\<close>: the pairs are stored one after the other.\<close>

definition OrderedDict :: "('k \<times> 'v) list \<Rightarrow> ('k \<times> 'v) list" where
  "OrderedDict pairs = foldl (\<lambda>d (k, v). od_set k v d) [] pairs"

text \<open>Well-formed trees: the keys of every object are distinct.\<close>

fun wf_json :: "json \<Rightarrow> bool" where
  "wf_json (JArr xs) = list_all wf_json xs"
| "wf_json (JObj kvs) = (distinct (map fst kvs) \<and> list_all (\<lambda>kv. wf_json (snd kv)) kvs)"
| "wf_json _ = True"

subsection \<open>Python strings\<close>

text \<open>
  A Python string is the list of its characters. The type \<open>char\<close> has the code points
  below 256; text with other characters is outside the model.
\<close>

definition lstrip :: "char \<Rightarrow> string \<Rightarrow> string" where
  "lstrip c s = dropWhile (\<lambda>x. x = c) s"

text \<open>\<^verbatim>\<open>s.split(c)\<close> for a one-character separator; the result is never empty.\<close>

fun split_on :: "char \<Rightarrow> string \<Rightarrow> string list" where
  "split_on c [] = [[]]"
| "split_on c (x # xs) =
     (if x = c then [] # split_on c xs
      else (case split_on c xs of
              [] \<Rightarrow> [[x]]
            | y # ys \<Rightarrow> (x # y) # ys))"

definition startswith :: "string \<Rightarrow> string \<Rightarrow> bool" where
  "startswith s p = (take (length p) s = p)"

definition endswith :: "string \<Rightarrow> string \<Rightarrow> bool" where
  "endswith s p = (length p \<le> length s \<and> drop (length s - length p) s = p)"

text \<open>\<^verbatim>\<open>p in s\<close> on strings: \<open>p\<close> occurs in \<open>s\<close>.\<close>

fun contains :: "string \<Rightarrow> string \<Rightarrow> bool" where
  "contains p [] = (p = [])"
| "contains p (x # xs) = (take (length p) (x # xs) = p \<or> contains p xs)"

text \<open>
  \<^verbatim>\<open>s.isdigit()\<close>: the string is not empty and all its characters are digits. Below
  code point 256 the digits are \<open>0\<close> to \<open>9\<close> and the superscripts two, three and one
  (U+00B2, U+00B3, U+00B9).
\<close>

definition isdigit_char :: "char \<Rightarrow> bool" where
  "isdigit_char c =
     (c \<in> set ''0123456789'' \<or>
      (of_char c :: nat) = 178 \<or> (of_char c :: nat) = 179 \<or> (of_char c :: nat) = 185)"

definition isdigit :: "string \<Rightarrow> bool" where
  "isdigit s = (s \<noteq> [] \<and> list_all isdigit_char s)"

definition digit_char :: "nat \<Rightarrow> char" where
  "digit_char d = ''0123456789'' ! (d mod 10)"

text \<open>\<^verbatim>\<open>str(n)\<close> and \<^verbatim>\<open>"%s" % n\<close> for an index or a count.\<close>

fun str_nat :: "nat \<Rightarrow> string" where
  "str_nat n = (if n < 10 then [digit_char n] else str_nat (n div 10) @ [digit_char n])"

declare str_nat.simps [simp del]

definition str_int :: "int \<Rightarrow> string" where
  "str_int i = (if i < 0 then CHR ''-'' # str_nat (nat (- i)) else str_nat (nat i))"

definition digit_val :: "char \<Rightarrow> nat" where
  "digit_val c = of_char c - 48"

text \<open>
  \<^verbatim>\<open>int(s)\<close> on a string. An optional sign followed by ASCII digits is the number it
  spells. An empty string, and a string with an ASCII character that no integer literal
  can hold (anything but a digit, a sign, an underscore or white space), raises
  \<^verbatim>\<open>ValueError\<close>. What Python makes of the remaining spellings (white space around
  the number, underscores between digits, characters from code point 127 on) is not
  modelled; \<open>py_int\<close> is declared after the errors.
\<close>

definition ascii_digits :: "string \<Rightarrow> bool" where
  "ascii_digits s = (s \<noteq> [] \<and> list_all (\<lambda>c. c \<in> set ''0123456789'') s)"

definition nat_of_str :: "string \<Rightarrow> nat option" where
  "nat_of_str s =
     (if ascii_digits s then Some (foldl (\<lambda>a c. 10 * a + digit_val c) 0 s) else None)"

definition int_of_str :: "string \<Rightarrow> int option" where
  "int_of_str s =
     (case s of
        c # r \<Rightarrow>
          (if c = CHR ''-'' then map_option (\<lambda>n. - int n) (nat_of_str r)
           else if c = CHR ''+'' then map_option int (nat_of_str r)
           else map_option int (nat_of_str s))
      | [] \<Rightarrow> None)"

definition literal_char :: "char \<Rightarrow> bool" where
  "literal_char c =
     (c \<in> set ''0123456789+-_'' \<or> (9 \<le> (of_char c :: nat) \<and> (of_char c :: nat) \<le> 13) \<or>
      (28 \<le> (of_char c :: nat) \<and> (of_char c :: nat) \<le> 32) \<or> 127 \<le> (of_char c :: nat))"

definition never_int :: "string \<Rightarrow> bool" where
  "never_int s = (s = [] \<or> list_ex (\<lambda>c. \<not> literal_char c) s)"

subsection \<open>Python values held by a unit\<close>

text \<open>
  A unit's target is a JSON value, a \<^verbatim>\<open>multistring\<close> (the list of its plural
  forms), or the text \<^verbatim>\<open>str(v)\<close> of a list or dictionary \<open>v\<close>, whose spelling
  depends on the interpreter and is kept symbolic.
\<close>

datatype pyval = PJson json | PMulti "string list" | PStrOf json

datatype pytype = T_str | T_int | T_bool | T_list | T_dict | T_multistring

datatype py_error = ValueError | AttributeError | TypeError | IndexError | KeyError | Unmodelled

definition py_int :: "string \<Rightarrow> py_error + int" where
  "py_int s =
     (case int_of_str s of
        Some i \<Rightarrow> Inr i
      | None \<Rightarrow> (if never_int s then Inl ValueError else Inl Unmodelled))"

text \<open>\<^verbatim>\<open>type(source)\<close>; \<^verbatim>\<open>None\<close> is handled by the caller.\<close>

fun type_of :: "pyval \<Rightarrow> pytype" where
  "type_of (PJson (JBool b)) = T_bool"
| "type_of (PJson (JInt i)) = T_int"
| "type_of (PJson (JArr xs)) = T_list"
| "type_of (PJson (JObj kvs)) = T_dict"
| "type_of (PMulti ss) = T_multistring"
| "type_of _ = T_str"

text \<open>
  \<^verbatim>\<open>issubclass(t, str)\<close>. The class \<^verbatim>\<open>multistring\<close> derives from \<^verbatim>\<open>str\<close>; as a
  string it is its first form, which also decides its truth value.
\<close>

fun is_str_type :: "pytype \<Rightarrow> bool" where
  "is_str_type T_str = True"
| "is_str_type T_multistring = True"
| "is_str_type _ = False"

text \<open>Truth value of a Python object, as \<^verbatim>\<open>if source:\<close> tests it.\<close>

fun truthy_json :: "json \<Rightarrow> bool" where
  "truthy_json JNull = False"
| "truthy_json (JBool b) = b"
| "truthy_json (JInt i) = (i \<noteq> 0)"
| "truthy_json (JStr s) = (s \<noteq> [])"
| "truthy_json (JArr xs) = (xs \<noteq> [])"
| "truthy_json (JObj kvs) = (kvs \<noteq> [])"

fun truthy :: "pyval \<Rightarrow> bool" where
  "truthy (PJson v) = truthy_json v"
| "truthy (PMulti ss) = (case ss of [] \<Rightarrow> False | s # _ \<Rightarrow> s \<noteq> [])"
| "truthy (PStrOf v) = True"

text \<open>\<^verbatim>\<open>str(source)\<close>.\<close>

fun py_str :: "pyval \<Rightarrow> pyval" where
  "py_str (PJson JNull) = PJson (JStr ''None'')"
| "py_str (PJson (JBool b)) = PJson (JStr (if b then ''True'' else ''False''))"
| "py_str (PJson (JInt i)) = PJson (JStr (str_int i))"
| "py_str (PJson (JStr s)) = PJson (JStr s)"
| "py_str (PJson v) = PStrOf v"
| "py_str (PMulti ss) = PJson (JStr (case ss of [] \<Rightarrow> [] | s # _ \<Rightarrow> s))"
| "py_str (PStrOf v) = PStrOf v"

subsection \<open>Units\<close>

text \<open>
  \<^verbatim>\<open>_item\<close> is the name of the unit at its own level: a key, an array index, or for a
  plural unit the list of its keys.
\<close>

datatype pykey = KStr string | KInt nat

datatype item = ItOne pykey | ItList "pykey list"

datatype unit_class = JsonUnit | JsonNestedUnit | I18NextUnit | GoI18NJsonUnit | ARBJsonUnit

record json_unit =
  ucls :: unit_class
  uid :: string
  item :: item
  utype :: pytype
  unotes :: json
  placeholders :: json
  target :: pyval
  metadata :: odict

text \<open>\<^verbatim>\<open>ID_FORMAT\<close> of the class, applied to an identifier.\<close>

fun ID_FORMAT :: "unit_class \<Rightarrow> string \<Rightarrow> string" where
  "ID_FORMAT GoI18NJsonUnit ident = ident"
| "ID_FORMAT ARBJsonUnit ident = ident"
| "ID_FORMAT _ ident = CHR ''.'' # ident"

text \<open>
  Modelled from the spec: \<^verbatim>\<open>base.TranslationUnit\<close> (translate/storage/base.py) is not
  among the sources. Section 3 of the specification: a unit is created holding
  its leaf value and an optional note. A fresh unit has an empty note and the target
  \<^verbatim>\<open>None\<close>; the base constructor stores a source that is not \<^verbatim>\<open>None\<close> through the
  \<^verbatim>\<open>source\<close> property, which \<^verbatim>\<open>JsonUnit\<close> redirects to \<^verbatim>\<open>target\<close>, and leaves
  every other attribute as the subclass set it.
\<close>

definition base_unit :: "unit_class \<Rightarrow> json_unit" where
  "base_unit cls =
     \<lparr>ucls = cls, uid = [], item = ItOne (KStr []), utype = T_str, unotes = JStr [],
      placeholders = JNull, target = PJson JNull, metadata = []\<rparr>"

text \<open>
  Modelled from the spec: the constructor of \<^verbatim>\<open>base.TranslationUnit\<close>, as described
  above. \<open>assign\<close> is the assignment to \<^verbatim>\<open>target\<close> of the unit's class and
  \<open>skip\<close> what happens to the unit when the source is \<^verbatim>\<open>None\<close>.
\<close>

definition base_init :: "(pyval \<Rightarrow> json_unit \<Rightarrow> 'r) \<Rightarrow> (json_unit \<Rightarrow> 'r) \<Rightarrow> pyval \<Rightarrow> json_unit \<Rightarrow> 'r" where
  "base_init assign skip source u = (if source \<noteq> PJson JNull then assign source u else skip u)"

definition setid :: "string \<Rightarrow> json_unit \<Rightarrow> json_unit" where
  "setid v u = u\<lparr>uid := v\<rparr>"

text \<open>
  \<^verbatim>\<open>JsonUnit.__init__\<close> for the classes whose \<^verbatim>\<open>target\<close> is a plain attribute.
  \<open>ident\<close> is the text of the \<^verbatim>\<open>uuid.uuid4()\<close> drawn by the constructor.
\<close>

definition JsonUnit_init ::
  "unit_class \<Rightarrow> string \<Rightarrow> pyval \<Rightarrow> item option \<Rightarrow> json \<Rightarrow> json \<Rightarrow> json_unit" where
  "JsonUnit_init cls ident source it nts phs =
     (let u0 = (base_unit cls)
                 \<lparr>uid := ID_FORMAT cls ident,
                  item := (case it of None \<Rightarrow> ItOne (KStr ident) | Some i \<Rightarrow> i),
                  utype := (if source = PJson JNull then T_str else type_of source)\<rparr>;
          u1 = (if truthy_json nts then u0\<lparr>unotes := nts\<rparr> else u0);
          u2 = u1\<lparr>placeholders := phs\<rparr>;
          u3 = (if truthy source
                then (if is_str_type (utype u2) then u2\<lparr>target := source\<rparr>
                      else u2\<lparr>target := py_str source\<rparr>)
                else u2)
      in base_init (\<lambda>s u. u\<lparr>target := s\<rparr>) (\<lambda>u. u) source u3)"

subsection \<open>The tree rebuilder\<close>

text \<open>
  The local function \<^verbatim>\<open>merge(d1, d2)\<close> of \<^verbatim>\<open>JsonFile.serialize\<close>. It updates
  \<open>d1\<close> in place; the model returns the updated dictionary.
\<close>

fun merge :: "odict \<Rightarrow> odict \<Rightarrow> odict" where
  "merge d1 [] = d1"
| "merge d1 ((k, v2) # d2) =
     merge
       (case map_of d1 k of
          Some v1 \<Rightarrow>
            (case (v1, v2) of
               (JObj a, JObj b) \<Rightarrow> od_set k (JObj (merge a b)) d1
             | (JArr a, JArr b) \<Rightarrow> od_set k (JArr (a @ b)) d1
             | _ \<Rightarrow> od_set k v2 d1)
        | None \<Rightarrow> od_set k v2 d1)
       d2"

text \<open>
  The deep-merge rule in the words of the specification: what a key holds after a
  fragment with value \<open>v2\<close> at that key has been merged in.
\<close>

fun deep_merge_value :: "json option \<Rightarrow> json \<Rightarrow> json" where
  "deep_merge_value (Some (JObj a)) (JObj b) = JObj (merge a b)"
| "deep_merge_value (Some (JArr a)) (JArr b) = JArr (a @ b)"
| "deep_merge_value _ v2 = v2"

subsection \<open>Values written back by the units\<close>

text \<open>
  A target placed in the tree that \<^verbatim>\<open>json.dumps\<close> writes: a \<^verbatim>\<open>multistring\<close> is
  written as its text, its first form.
\<close>

fun emit :: "pyval \<Rightarrow> py_error + json" where
  "emit (PJson v) = Inr v"
| "emit (PMulti ss) = Inr (JStr (case ss of [] \<Rightarrow> [] | s # _ \<Rightarrow> s))"
| "emit (PStrOf v) = Inl Unmodelled"

text \<open>
  \<^verbatim>\<open>self._type(self.target)\<close> for a type that is not a string type. Rebuilding a
  list or a dictionary from a target is not modelled: the stores that create such units
  never convert them.
\<close>

fun convert :: "pytype \<Rightarrow> pyval \<Rightarrow> py_error + json" where
  "convert T_int (PJson (JInt i)) = Inr (JInt i)"
| "convert T_int (PJson (JBool b)) = Inr (JInt (if b then 1 else 0))"
| "convert T_int (PJson (JStr s)) =
     (case py_int s of Inl e \<Rightarrow> Inl e | Inr i \<Rightarrow> Inr (JInt i))"
| "convert T_int (PJson v) = Inl TypeError"
| "convert T_int (PMulti ss) =
     (case py_int (case ss of [] \<Rightarrow> [] | s # _ \<Rightarrow> s) of
        Inl e \<Rightarrow> Inl e
      | Inr i \<Rightarrow> Inr (JInt i))"
| "convert T_int (PStrOf v) = Inl ValueError"
| "convert T_bool t = Inr (JBool (truthy t))"
| "convert ty t = Inl Unmodelled"

definition converttarget :: "json_unit \<Rightarrow> py_error + json" where
  "converttarget u =
     (if is_str_type (utype u) then emit (target u) else convert (utype u) (target u))"

definition JsonUnit_getkey :: "json_unit \<Rightarrow> string" where
  "JsonUnit_getkey u = lstrip CHR ''.'' (uid u)"

definition JsonUnit_getvalue :: "json_unit \<Rightarrow> py_error + json" where
  "JsonUnit_getvalue u =
     (case converttarget u of
        Inl e \<Rightarrow> Inl e
      | Inr v \<Rightarrow> Inr (JObj [(JsonUnit_getkey u, v)]))"

definition JsonNestedUnit_getkey :: "json_unit \<Rightarrow> string list" where
  "JsonNestedUnit_getkey u = split_on CHR ''.'' (lstrip CHR ''.'' (uid u))"

text \<open>
  One round of the loop of \<^verbatim>\<open>JsonNestedUnit.getvalue\<close>; \<^verbatim>\<open>k.split('[')[0]\<close> is
  the text before the first bracket.
\<close>

definition nest_step :: "string \<Rightarrow> json \<Rightarrow> json" where
  "nest_step k ret =
     (if CHR ''['' \<in> set k \<and> last k = CHR '']''
      then JObj [(takeWhile (\<lambda>c. c \<noteq> CHR ''['') k, JArr [ret])]
      else JObj [(k, ret)])"

text \<open>The loop runs over \<^verbatim>\<open>reversed(self.getkey())\<close>: the last key wraps first.\<close>

definition JsonNestedUnit_getvalue :: "json_unit \<Rightarrow> py_error + json" where
  "JsonNestedUnit_getvalue u =
     (case converttarget u of
        Inl e \<Rightarrow> Inl e
      | Inr v \<Rightarrow> Inr (foldr nest_step (JsonNestedUnit_getkey u) v))"

subsection \<open>i18next units\<close>

text \<open>\<^verbatim>\<open>get_base(item)\<close>, called on the list \<^verbatim>\<open>self._item\<close>.\<close>

fun get_base :: "pykey list \<Rightarrow> py_error + string" where
  "get_base [] = Inl IndexError"
| "get_base (KInt i # its) = Inl TypeError"
| "get_base (KStr k # its) = Inr (if contains ''_0'' k then take (length k - 2) k else k)"

definition get_plurals :: "nat \<Rightarrow> string \<Rightarrow> string list" where
  "get_plurals count b =
     (if count \<le> 2 then take count [b, b @ ''_plural'']
      else map (\<lambda>i. b @ ''_'' @ str_nat i) [0..<count])"

text \<open>The setter of \<^verbatim>\<open>I18NextUnit.target\<close>.\<close>

definition I18NextUnit_set_target :: "pyval \<Rightarrow> json_unit \<Rightarrow> py_error + json_unit" where
  "I18NextUnit_set_target tgt u =
     (case tgt of
        PMulti strings \<Rightarrow>
          (let count = length strings;
               its = (case item u of ItList l \<Rightarrow> l | ItOne k \<Rightarrow> [k])
           in if count \<noteq> length its
              then (case get_base its of
                      Inl e \<Rightarrow> Inl e
                    | Inr b \<Rightarrow> Inr (u\<lparr>item := ItList (map KStr (get_plurals count b)), target := tgt\<rparr>))
              else Inr (u\<lparr>item := ItList its, target := tgt\<rparr>))
      | _ \<Rightarrow>
          (case item u of
             ItList l \<Rightarrow>
               (case get_base l of
                  Inl e \<Rightarrow> Inl e
                | Inr b \<Rightarrow> Inr (u\<lparr>item := ItOne (KStr b), target := tgt\<rparr>))
           | ItOne k \<Rightarrow> Inr (u\<lparr>target := tgt\<rparr>)))"

text \<open>
  \<^verbatim>\<open>JsonUnit.__init__\<close> run for an \<^verbatim>\<open>I18NextUnit\<close>: every assignment to
  \<^verbatim>\<open>self.target\<close> goes through the setter.
\<close>

definition I18NextUnit_init ::
  "string \<Rightarrow> pyval \<Rightarrow> item option \<Rightarrow> json \<Rightarrow> json \<Rightarrow> py_error + json_unit" where
  "I18NextUnit_init ident source it nts phs =
     (let u0 = (base_unit I18NextUnit)
                 \<lparr>uid := ID_FORMAT I18NextUnit ident,
                  item := (case it of None \<Rightarrow> ItOne (KStr ident) | Some i \<Rightarrow> i),
                  utype := (if source = PJson JNull then T_str else type_of source)\<rparr>;
          u1 = (if truthy_json nts then u0\<lparr>unotes := nts\<rparr> else u0);
          u2 = u1\<lparr>placeholders := phs\<rparr>;
          r3 = (if truthy source
                then (if is_str_type (utype u2) then I18NextUnit_set_target source u2
                      else I18NextUnit_set_target (py_str source) u2)
                else Inr u2)
      in case r3 of
           Inl e \<Rightarrow> Inl e
         | Inr u3 \<Rightarrow> base_init I18NextUnit_set_target Inr source u3)"

text \<open>
  The loop \<^verbatim>\<open>ret[self._item[i]] = value\<close> of \<^verbatim>\<open>I18NextUnit.getvalue\<close>, before the
  assignments are stored: the pairs in the order of the forms.
\<close>

fun plural_pairs :: "pykey list \<Rightarrow> string list \<Rightarrow> py_error + (string \<times> json) list" where
  "plural_pairs its [] = Inr []"
| "plural_pairs [] (s # ss) = Inl IndexError"
| "plural_pairs (KInt i # its) (s # ss) = Inl Unmodelled"
| "plural_pairs (KStr k # its) (s # ss) =
     (case plural_pairs its ss of
        Inl e \<Rightarrow> Inl e
      | Inr r \<Rightarrow> Inr ((k, JStr s) # r))"

definition I18NextUnit_getvalue :: "json_unit \<Rightarrow> py_error + json" where
  "I18NextUnit_getvalue u =
     (case target u of
        PMulti strings \<Rightarrow>
          (case item u of
             ItOne k \<Rightarrow> Inl Unmodelled
           | ItList its \<Rightarrow>
               (case plural_pairs its strings of
                  Inl e \<Rightarrow> Inl e
                | Inr pairs \<Rightarrow>
                    Inr (foldr (\<lambda>k ret. JObj [(k, ret)])
                           (butlast (split_on CHR ''.'' (lstrip CHR ''.'' (uid u))))
                           (JObj (OrderedDict pairs)))))
      | _ \<Rightarrow> JsonNestedUnit_getvalue u)"

subsection \<open>go-i18n units\<close>

text \<open>
  The comprehension \<^verbatim>\<open>[(plural, strings[offset]) for offset, plural in enumerate(tags)]\<close>,
  from a given offset.
\<close>

fun plural_entries :: "string list \<Rightarrow> nat \<Rightarrow> string list \<Rightarrow> py_error + (string \<times> json) list" where
  "plural_entries strings offset [] = Inr []"
| "plural_entries strings offset (plural # tags) =
     (if offset < length strings
      then (case plural_entries strings (Suc offset) tags of
              Inl e \<Rightarrow> Inl e
            | Inr r \<Rightarrow> Inr ((plural, JStr (strings ! offset)) # r))
      else Inl IndexError)"

text \<open>
  \<^verbatim>\<open>GoI18NJsonUnit.getvalue\<close>; \<open>tags\<close> is \<^verbatim>\<open>self._store.plural_tags\<close>.
\<close>

definition GoI18NJsonUnit_getvalue :: "string list \<Rightarrow> json_unit \<Rightarrow> py_error + json" where
  "GoI18NJsonUnit_getvalue tags u =
     (let tgt =
            (case target u of
               PMulti ts \<Rightarrow>
                 (let strings = (if length tags > length ts
                                 then ts @ replicate (length tags - length ts) []
                                 else ts)
                  in case plural_entries strings 0 tags of
                       Inl e \<Rightarrow> Inl e
                     | Inr pairs \<Rightarrow> Inr (JObj (OrderedDict pairs)))
             | t \<Rightarrow> emit t);
          value0 = OrderedDict [(''id'', JStr (uid u))];
          value1 = (if truthy_json (unotes u) then od_set ''description'' (unotes u) value0
                    else value0)
      in case tgt of
           Inl e \<Rightarrow> Inl e
         | Inr t \<Rightarrow> Inr (JObj (od_set ''translation'' t value1)))"

text \<open>
  \<^verbatim>\<open>GoI18NJsonFile.plural_tags\<close>. The table \<^verbatim>\<open>plural_tags\<close> of translate/lang/data.py
  and the store's target language are parameters; \<^verbatim>\<open>plural_tags['en']\<close> is looked up
  before \<^verbatim>\<open>get\<close> is called.
\<close>

definition replace_char :: "char \<Rightarrow> char \<Rightarrow> string \<Rightarrow> string" where
  "replace_char a b s = map (\<lambda>c. if c = a then b else c) s"

definition GoI18NJsonFile_plural_tags ::
  "(string \<times> string list) list \<Rightarrow> string option \<Rightarrow> py_error + string list" where
  "GoI18NJsonFile_plural_tags table targetlanguage =
     (let locale =
            (case targetlanguage of
               None \<Rightarrow> ''en''
             | Some l \<Rightarrow>
                 (if l \<noteq> [] then hd (split_on CHR ''-'' (replace_char CHR ''_'' CHR ''-'' l))
                  else ''en''))
      in case map_of table ''en'' of
           None \<Rightarrow> Inl KeyError
         | Some en \<Rightarrow>
             Inr (case map_of table locale of None \<Rightarrow> en | Some tags \<Rightarrow> tags))"

text \<open>
  \<^verbatim>\<open>GoI18NJsonUnit.getvalue\<close> of a unit whose store has the given table and target
  language. The unit reads \<^verbatim>\<open>self._store.plural_tags\<close> only when its target is a
  \<^verbatim>\<open>multistring\<close>.
\<close>

definition GoI18NJsonUnit_store_getvalue ::
  "(string \<times> string list) list \<Rightarrow> string option \<Rightarrow> json_unit \<Rightarrow> py_error + json" where
  "GoI18NJsonUnit_store_getvalue table targetlanguage u =
     (case target u of
        PMulti ts \<Rightarrow>
          (case GoI18NJsonFile_plural_tags table targetlanguage of
             Inl e \<Rightarrow> Inl e
           | Inr tags \<Rightarrow> GoI18NJsonUnit_getvalue tags u)
      | t \<Rightarrow> GoI18NJsonUnit_getvalue [] u)"

subsection \<open>ARB units\<close>

text \<open>\<^verbatim>\<open>ARBJsonUnit.__init__\<close>: \<^verbatim>\<open>self.metadata = metadata or {}\<close>.\<close>

definition ARBJsonUnit_init ::
  "string \<Rightarrow> pyval \<Rightarrow> item option \<Rightarrow> json \<Rightarrow> json \<Rightarrow> odict \<Rightarrow> json_unit" where
  "ARBJsonUnit_init ident source it nts phs md =
     (JsonUnit_init ARBJsonUnit ident source it nts phs)\<lparr>metadata := md\<rparr>"

text \<open>
  \<^verbatim>\<open>ARBJsonUnit.getvalue\<close>. The source also stores the description in the unit's own
  metadata dictionary; the model returns the value only.
\<close>

definition ARBJsonUnit_getvalue :: "json_unit \<Rightarrow> py_error + json" where
  "ARBJsonUnit_getvalue u =
     (let md = (if truthy_json (unotes u) then od_set ''description'' (unotes u) (metadata u)
                else metadata u);
          identifier = uid u
      in if identifier = ''@'' then Inr (JObj md)
         else (case emit (target u) of
                 Inl e \<Rightarrow> Inl e
               | Inr t \<Rightarrow> Inr (JObj (OrderedDict [(identifier, t), (CHR ''@'' # identifier, JObj md)]))))"

subsection \<open>Serialising a store\<close>

text \<open>
  \<^verbatim>\<open>unit.getvalue()\<close> as \<^verbatim>\<open>JsonFile.serialize\<close> calls it. The stores that use this
  \<^verbatim>\<open>serialize\<close> have no \<^verbatim>\<open>plural_tags\<close>, which a go-i18n unit would ask its store for.
\<close>

definition getvalue :: "json_unit \<Rightarrow> py_error + json" where
  "getvalue u =
     (case ucls u of
        JsonUnit \<Rightarrow> JsonUnit_getvalue u
      | JsonNestedUnit \<Rightarrow> JsonNestedUnit_getvalue u
      | I18NextUnit \<Rightarrow> I18NextUnit_getvalue u
      | ARBJsonUnit \<Rightarrow> ARBJsonUnit_getvalue u
      | GoI18NJsonUnit \<Rightarrow> Inl AttributeError)"

text \<open>
  The loop of \<^verbatim>\<open>JsonFile.serialize\<close> over the units, from the dictionary built so
  far. Every \<^verbatim>\<open>getvalue\<close> above returns a dictionary.
\<close>

fun serialize_loop :: "odict \<Rightarrow> json_unit list \<Rightarrow> py_error + odict" where
  "serialize_loop units [] = Inr units"
| "serialize_loop units (u # us) =
     (case getvalue u of
        Inl e \<Rightarrow> Inl e
      | Inr (JObj d2) \<Rightarrow> serialize_loop (merge units d2) us
      | Inr _ \<Rightarrow> Inl TypeError)"

text \<open>The tree that \<^verbatim>\<open>JsonFile.serialize\<close> hands to \<^verbatim>\<open>json.dumps\<close>.\<close>

definition JsonFile_serialize :: "json_unit list \<Rightarrow> py_error + json" where
  "JsonFile_serialize us =
     (case serialize_loop [] us of Inl e \<Rightarrow> Inl e | Inr units \<Rightarrow> Inr (JObj units))"

subsection \<open>The leaf extractor\<close>

text \<open>
  \<^verbatim>\<open>last_node\<close> is only asked whether it is a dictionary or a list;
  \<^verbatim>\<open>name_node\<close> and \<^verbatim>\<open>name_last_node\<close> are \<^verbatim>\<open>None\<close>, a key or an index.
  The filter \<^verbatim>\<open>stop\<close> is \<^verbatim>\<open>None\<close> or a collection of key names.
\<close>

datatype node_kind = NoNode | DictNode | ListNode

fun in_stop :: "pykey option \<Rightarrow> string list \<Rightarrow> bool" where
  "in_stop (Some (KStr k)) stop = (k \<in> set stop)"
| "in_stop _ stop = False"

definition passes_filter ::
  "string list option \<Rightarrow> pykey option \<Rightarrow> pykey option \<Rightarrow> node_kind \<Rightarrow> bool" where
  "passes_filter stop name_node name_last_node last_node =
     (case stop of
        None \<Rightarrow> True
      | Some keys \<Rightarrow>
          (last_node = DictNode \<and> in_stop name_node keys) \<or>
          (last_node = ListNode \<and> in_stop name_last_node keys))"

text \<open>
  \<^verbatim>\<open>JsonFile._extract_units\<close>, for the stores that do not override it
  (\<^verbatim>\<open>JsonFile\<close>, \<^verbatim>\<open>JsonNestedFile\<close>); \<open>cls\<close> is the store's \<^verbatim>\<open>UnitClass\<close>. The
  generator is modelled by the list of the units it yields. \<open>ident\<close> stands for the
  identifier that each constructor draws: \<^verbatim>\<open>setid\<close> replaces it as the unit's id at
  once, and it remains as the item only of a unit built without a name, which is the unit
  of a tree that is a single leaf. \<open>extract_dict\<close> is the loop
  over \<^verbatim>\<open>data.items()\<close> and \<open>extract_list\<close> the loop over \<^verbatim>\<open>enumerate(data)\<close>, from
  index \<open>i\<close> on.
\<close>

function (sequential) extract_units ::
    "unit_class \<Rightarrow> string \<Rightarrow> json \<Rightarrow> string list option \<Rightarrow> string \<Rightarrow>
     pykey option \<Rightarrow> pykey option \<Rightarrow> node_kind \<Rightarrow> json_unit list"
  and extract_dict ::
    "unit_class \<Rightarrow> string \<Rightarrow> (string \<times> json) list \<Rightarrow> string list option \<Rightarrow> string \<Rightarrow>
     json_unit list"
  and extract_list ::
    "unit_class \<Rightarrow> string \<Rightarrow> json list \<Rightarrow> nat \<Rightarrow> string list option \<Rightarrow> string \<Rightarrow>
     pykey option \<Rightarrow> json_unit list"
where
  "extract_units cls ident (JObj kvs) stop prev name_node name_last_node last_node =
     extract_dict cls ident kvs stop prev"
| "extract_units cls ident (JArr xs) stop prev name_node name_last_node last_node =
     extract_list cls ident xs 0 stop prev name_node"
| "extract_units cls ident data stop prev name_node name_last_node last_node =
     (if passes_filter stop name_node name_last_node last_node
      then [setid prev (JsonUnit_init cls ident (PJson data) (map_option ItOne name_node) JNull JNull)]
      else [])"
| "extract_dict cls ident [] stop prev = []"
| "extract_dict cls ident ((k, v) # kvs) stop prev =
     extract_units cls ident v stop (prev @ ''.'' @ k) (Some (KStr k)) None DictNode
     @ extract_dict cls ident kvs stop prev"
| "extract_list cls ident [] i stop prev name_node = []"
| "extract_list cls ident (x # xs) i stop prev name_node =
     extract_units cls ident x stop (prev @ ''['' @ str_nat i @ '']'') (Some (KInt i)) name_node ListNode
     @ extract_list cls ident xs (Suc i) stop prev name_node"

  by pat_completeness auto

termination
  by (relation "measure (\<lambda>x. case x of
         Inl (cls, ident, d, r) \<Rightarrow> 2 * size d + 1
       | Inr (Inl (cls, ident, kvs, r)) \<Rightarrow> 2 * size (JObj kvs)
       | Inr (Inr (cls, ident, xs, r)) \<Rightarrow> 2 * size (JArr xs))") auto

subsection \<open>The i18next extractor\<close>

text \<open>
  A generator that may raise: the units yielded so far, and the error that ended it, if
  any.
\<close>

type_synonym units_gen = "json_unit list \<times> py_error option"

definition gen_then :: "units_gen \<Rightarrow> units_gen \<Rightarrow> units_gen" where
  "gen_then a b = (case snd a of Some e \<Rightarrow> a | None \<Rightarrow> (fst a @ fst b, snd b))"

definition gen_unit :: "py_error + json_unit \<Rightarrow> units_gen" where
  "gen_unit r = (case r of Inl e \<Rightarrow> ([], Some e) | Inr u \<Rightarrow> ([u], None))"

text \<open>\<^verbatim>\<open>key.rsplit('_', 1)\<close>: the two parts around the last separator, if there is one.\<close>

definition rsplit_last :: "char \<Rightarrow> string \<Rightarrow> (string \<times> string) option" where
  "rsplit_last c s =
     (if c \<in> set s
      then Some (rev (tl (dropWhile (\<lambda>x. x \<noteq> c) (rev s))), rev (takeWhile (\<lambda>x. x \<noteq> c) (rev s)))
      else None)"

text \<open>\<^verbatim>\<open>key.rsplit('_', 1)[0]\<close>.\<close>

definition rsplit_head :: "char \<Rightarrow> string \<Rightarrow> string" where
  "rsplit_head c s = (case rsplit_last c s of None \<Rightarrow> s | Some (a, b) \<Rightarrow> a)"

text \<open>
  The loop over \<^verbatim>\<open>plurals\<close> that gathers the sources and items of a group; it
  \<^verbatim>\<open>break\<close>s at the first key that the object does not have.
\<close>

fun collect_plurals :: "(string \<times> json) list \<Rightarrow> string list \<Rightarrow> json list \<times> string list" where
  "collect_plurals data [] = ([], [])"
| "collect_plurals data (key # plurals) =
     (case map_of data key of
        None \<Rightarrow> ([], [])
      | Some v \<Rightarrow>
          (let (sources, items) = collect_plurals data plurals
           in (v # sources, key # items)))"

fun is_JStr :: "json \<Rightarrow> bool" where
  "is_JStr (JStr s) = True"
| "is_JStr _ = False"

fun the_JStr :: "json \<Rightarrow> string" where
  "the_JStr (JStr s) = s"
| "the_JStr _ = []"

text \<open>
  Modelled from the spec: the class \<^verbatim>\<open>multistring\<close> (translate/misc/multistring.py)
  is not among the sources. Section 3 of the specification describes a pluralized value as
  an ordered set of plural-form strings: \<^verbatim>\<open>multistring(sources)\<close> of a non-empty list
  of strings is the multi-string value holding these forms in order. What the class makes
  of an empty list or of forms that are not strings is not modelled.
\<close>

definition multistring :: "json list \<Rightarrow> py_error + pyval" where
  "multistring sources =
     (if sources \<noteq> [] \<and> list_all is_JStr sources then Inr (PMulti (map the_JStr sources))
      else Inl Unmodelled)"

text \<open>The unit of a plural group: \<^verbatim>\<open>self.UnitClass(multistring(sources), items)\<close>
  and \<^verbatim>\<open>unit.setid("%s.%s" % (prev, plural_base))\<close>.\<close>

definition plural_unit ::
  "string \<Rightarrow> (string \<times> json) list \<Rightarrow> string list \<Rightarrow> string \<Rightarrow> string \<Rightarrow> py_error + json_unit" where
  "plural_unit ident data plurals prev plural_base =
     (let (sources, items) = collect_plurals data plurals
      in case multistring sources of
           Inl e \<Rightarrow> Inl e
         | Inr ms \<Rightarrow>
             (case I18NextUnit_init ident ms (Some (ItList (map KStr items))) JNull JNull of
                Inl e \<Rightarrow> Inl e
              | Inr u \<Rightarrow> Inr (setid (prev @ ''.'' @ plural_base) u)))"

text \<open>
  \<^verbatim>\<open>I18NextFile._extract_units\<close>. \<open>i18n_dict\<close> is the loop over \<^verbatim>\<open>data.items()\<close>:
  \<open>data\<close> is the whole object, the next list what is left of its items, and
  \<open>pm\<close>, \<open>ps\<close>, \<open>processed\<close> the current \<^verbatim>\<open>plurals_multiple\<close>,
  \<^verbatim>\<open>plurals_simple\<close> and \<^verbatim>\<open>processed\<close>. \<^verbatim>\<open>plurals_simple.remove\<close> raises
  \<^verbatim>\<open>ValueError\<close> when the base is not in the list. The other branch calls
  \<^verbatim>\<open>JsonFile._extract_units\<close>, whose recursive calls come back to this method:
  \<open>i18n_list\<close> is its loop over a list.
\<close>

function (sequential) i18n_extract_units ::
    "string \<Rightarrow> json \<Rightarrow> string list option \<Rightarrow> string \<Rightarrow>
     pykey option \<Rightarrow> pykey option \<Rightarrow> node_kind \<Rightarrow> units_gen"
  and i18n_dict ::
    "string \<Rightarrow> (string \<times> json) list \<Rightarrow> (string \<times> json) list \<Rightarrow> string list \<Rightarrow> string list \<Rightarrow>
     string list \<Rightarrow> string list option \<Rightarrow> string \<Rightarrow> units_gen"
  and i18n_list ::
    "string \<Rightarrow> json list \<Rightarrow> nat \<Rightarrow> string list option \<Rightarrow> string \<Rightarrow>
     pykey option \<Rightarrow> units_gen"
where
  "i18n_extract_units ident (JObj kvs) stop prev name_node name_last_node last_node =
     i18n_dict ident kvs kvs
       (map (rsplit_head CHR ''_'') (filter (\<lambda>key. endswith key ''_0'') (map fst kvs)))
       (map (rsplit_head CHR ''_'') (filter (\<lambda>key. endswith key ''_plural'') (map fst kvs)))
       [] stop prev"
| "i18n_extract_units ident (JArr xs) stop prev name_node name_last_node last_node =
     i18n_list ident xs 0 stop prev name_node"
| "i18n_extract_units ident data stop prev name_node name_last_node last_node =
     (if passes_filter stop name_node name_last_node last_node
      then gen_unit
             (case I18NextUnit_init ident (PJson data) (map_option ItOne name_node) JNull JNull of
                Inl e \<Rightarrow> Inl e
              | Inr u \<Rightarrow> Inr (setid prev u))
      else ([], None))"
| "i18n_dict ident data [] pm ps processed stop prev = ([], None)"
| "i18n_dict ident data ((k, v) # rest) pm ps processed stop prev =
     (if k \<in> set processed then i18n_dict ident data rest pm ps processed stop prev
      else if k \<in> set ps \<or> (k @ ''_plural'') \<in> set ps then
        (let plural_base = (if endswith k ''_plural'' then take (length k - 7) k else k)
         in if plural_base \<notin> set ps then ([], Some ValueError)
            else
              (let plurals = [k, k @ ''_plural'']
               in gen_then (gen_unit (plural_unit ident data plurals prev plural_base))
                    (i18n_dict ident data rest pm (remove1 plural_base ps)
                       (processed @ snd (collect_plurals data plurals)) stop prev)))
      else
        (case (case rsplit_last CHR ''_'' k of
                 None \<Rightarrow> None
               | Some (plural_base, digit) \<Rightarrow>
                   (if plural_base \<in> set pm \<and> isdigit digit then Some plural_base else None)) of
           Some plural_base \<Rightarrow>
             (let plurals = map (\<lambda>order. plural_base @ ''_'' @ str_nat order) [0..<10]
              in gen_then (gen_unit (plural_unit ident data plurals prev plural_base))
                   (i18n_dict ident data rest (remove1 plural_base pm) ps
                      (processed @ snd (collect_plurals data plurals)) stop prev))
         | None \<Rightarrow>
             gen_then
               (i18n_extract_units ident v stop (prev @ ''.'' @ k) (Some (KStr k)) None DictNode)
               (i18n_dict ident data rest pm ps processed stop prev)))"
| "i18n_list ident [] i stop prev name_node = ([], None)"
| "i18n_list ident (x # xs) i stop prev name_node =
     gen_then
       (i18n_extract_units ident x stop (prev @ ''['' @ str_nat i @ '']'') (Some (KInt i)) name_node ListNode)
       (i18n_list ident xs (Suc i) stop prev name_node)"
  by pat_completeness auto

termination
  by (relation "measure (\<lambda>x. case x of
         Inl (ident, d, r) \<Rightarrow> 2 * size d + 1
       | Inr (Inl (ident, data, kvs, r)) \<Rightarrow> 2 * size (JObj kvs)
       | Inr (Inr (ident, xs, r)) \<Rightarrow> 2 * size (JArr xs))") auto

subsection \<open>The ARB extractor\<close>

text \<open>
  \<^verbatim>\<open>data.get\<close> of the key made of \<^verbatim>\<open>@\<close> and the item, with an empty dictionary
  as default, followed by the \<^verbatim>\<open>metadata.get\<close> calls, which need a dictionary.
\<close>

definition arb_metadata :: "(string \<times> json) list \<Rightarrow> string \<Rightarrow> py_error + odict" where
  "arb_metadata data name =
     (case map_of data (CHR ''@'' # name) of
        None \<Rightarrow> Inr []
      | Some (JObj m) \<Rightarrow> Inr m
      | Some _ \<Rightarrow> Inl AttributeError)"

definition dict_get :: "(string \<times> json) list \<Rightarrow> string \<Rightarrow> json \<Rightarrow> json" where
  "dict_get d k dflt = (case map_of d k of None \<Rightarrow> dflt | Some v \<Rightarrow> v)"

text \<open>The second loop of \<^verbatim>\<open>ARBJsonFile._extract_units\<close>, over \<^verbatim>\<open>data.items()\<close>.\<close>

fun arb_items :: "string \<Rightarrow> (string \<times> json) list \<Rightarrow> (string \<times> json) list \<Rightarrow> units_gen" where
  "arb_items ident data [] = ([], None)"
| "arb_items ident data ((name, v) # rest) =
     (if startswith name ''@'' then arb_items ident data rest
      else
        (case arb_metadata data name of
           Inl e \<Rightarrow> ([], Some e)
         | Inr md \<Rightarrow>
             gen_then
               ([setid name
                   (ARBJsonUnit_init ident (PJson v) (Some (ItOne (KStr name)))
                      (dict_get md ''description'' (JStr []))
                      (dict_get md ''placeholders'' JNull) md)], None)
               (arb_items ident data rest)))"

text \<open>
  \<^verbatim>\<open>ARBJsonFile._extract_units\<close>; only \<^verbatim>\<open>data\<close> is used, and it must have
  \<^verbatim>\<open>items()\<close>.
\<close>

definition ARBJsonFile_extract_units :: "string \<Rightarrow> json \<Rightarrow> units_gen" where
  "ARBJsonFile_extract_units ident data =
     (case data of
        JObj kvs \<Rightarrow>
          (let md = OrderedDict (filter (\<lambda>(key, v). startswith key ''@@'') kvs)
           in gen_then
                (if md \<noteq> []
                 then ([setid ''@'' (ARBJsonUnit_init ident (PJson JNull) None JNull JNull md)], None)
                 else ([], None))
                (arb_items ident kvs kvs))
      | _ \<Rightarrow> ([], Some AttributeError))"

subsection \<open>Loading a store\<close>

datatype file_class = JsonFile | JsonNestedFile | I18NextFile | ARBJsonFile

record json_store =
  units :: "json_unit list"
  filename :: string
  json_file :: json
  encoding :: string
  store_filter :: "string list option"






text \<open>\<^verbatim>\<open>self._extract_units(self._file, stop=self._filter)\<close> of each store class.\<close>

definition extract_units_of ::
  "file_class \<Rightarrow> string \<Rightarrow> json \<Rightarrow> string list option \<Rightarrow> units_gen" where
  "extract_units_of cls ident data stop =
     (case cls of
        JsonFile \<Rightarrow> (extract_units JsonUnit ident data stop [] None None NoNode, None)
      | JsonNestedFile \<Rightarrow> (extract_units JsonNestedUnit ident data stop [] None None NoNode, None)
      | I18NextFile \<Rightarrow> i18n_extract_units ident data stop [] None None NoNode
      | ARBJsonFile \<Rightarrow> ARBJsonFile_extract_units ident data)"



subsection \<open>Path addressing, in the words of the specification\<close>

text \<open>
  Section 3 of the specification: an address path is a sequence of segments, each an
  object key or an array index. Section 4.1: a path is rendered with each key prefixed
  by a dot and each index written in brackets right after the segment before it.
\<close>

datatype seg = ObjectKey string | ArrayIndex nat

fun render_seg :: "seg \<Rightarrow> string" where
  "render_seg (ObjectKey k) = ''.'' @ k"
| "render_seg (ArrayIndex i) = ''['' @ str_nat i @ '']''"

definition render :: "seg list \<Rightarrow> string" where
  "render p = concat (map render_seg p)"

text \<open>
  The paths of the leaves of a tree, depth first: the members of an object in the order
  of its keys, the elements of an array in the order of their indices (from \<open>i\<close> on in
  \<open>list_paths\<close>). A leaf is a value that is neither an object nor an array.
\<close>

fun leaf_paths :: "json \<Rightarrow> seg list list"
  and dict_paths :: "(string \<times> json) list \<Rightarrow> seg list list"
  and list_paths :: "json list \<Rightarrow> nat \<Rightarrow> seg list list"
where
  "leaf_paths (JObj kvs) = dict_paths kvs"
| "leaf_paths (JArr xs) = list_paths xs 0"
| "leaf_paths v = [[]]"
| "dict_paths [] = []"
| "dict_paths ((k, v) # kvs) = map ((#) (ObjectKey k)) (leaf_paths v) @ dict_paths kvs"
| "list_paths [] i = []"
| "list_paths (x # xs) i = map ((#) (ArrayIndex i)) (leaf_paths x) @ list_paths xs (Suc i)"

text \<open>
  The filter rule of section 4.2 on the path of a leaf: every leaf when there is no
  filter; otherwise a leaf whose immediate container is an object and whose own key is in
  the filter, or a leaf whose immediate container is an array that is itself the value of
  an object key in the filter.
\<close>

fun emitted_rev :: "string list \<Rightarrow> seg list \<Rightarrow> bool" where
  "emitted_rev keys (ObjectKey k # rp) = (k \<in> set keys)"
| "emitted_rev keys (ArrayIndex i # ObjectKey k # rp) = (k \<in> set keys)"
| "emitted_rev keys rp = False"

definition emitted :: "string list option \<Rightarrow> seg list \<Rightarrow> bool" where
  "emitted stop p = (case stop of None \<Rightarrow> True | Some keys \<Rightarrow> emitted_rev keys (rev p))"

subsection \<open>The position of a recursive call\<close>

text \<open>
  What \<^verbatim>\<open>_extract_units\<close> is called with at the end of a path that starts at the
  root call \<^verbatim>\<open>_extract_units(self._file, stop)\<close>: the arguments \<^verbatim>\<open>name_node\<close>,
  \<^verbatim>\<open>name_last_node\<close> and \<^verbatim>\<open>last_node\<close>, from the reversed path.
\<close>

fun name_node_at :: "seg list \<Rightarrow> pykey option" where
  "name_node_at [] = None"
| "name_node_at (ObjectKey k # rp) = Some (KStr k)"
| "name_node_at (ArrayIndex i # rp) = Some (KInt i)"

fun name_last_node_at :: "seg list \<Rightarrow> pykey option" where
  "name_last_node_at (ArrayIndex i # rp) = name_node_at rp"
| "name_last_node_at rp = None"

fun last_node_at :: "seg list \<Rightarrow> node_kind" where
  "last_node_at [] = NoNode"
| "last_node_at (ObjectKey k # rp) = DictNode"
| "last_node_at (ArrayIndex i # rp) = ListNode"

subsection \<open>Example documents\<close>

definition arb_example :: json where
  "arb_example =
     JObj [(''@@locale'', JStr ''en''),
           (''greeting'', JStr ''Hi''),
           (''@greeting'', JObj [(''description'', JStr ''salutes'')])]"

definition i18n_gap_example :: json where
  "i18n_gap_example = JObj [(''key_0'', JStr ''a''), (''key_2'', JStr ''c'')]"

definition i18n_plural_example :: json where
  "i18n_plural_example = JObj [(''key_0'', JStr ''one''), (''key_1'', JStr ''many'')]"

text \<open>The keys \<open>base_0\<close> to \<open>base_9\<close> that the extractor tries for an indexed group.\<close>

definition indexed_keys :: "string \<Rightarrow> string list" where
  "indexed_keys plural_base = map (\<lambda>order. plural_base @ ''_'' @ str_nat order) [0..<10]"

text \<open>The longest run of keys, from the first on, that the object has.\<close>

definition present_run :: "(string \<times> json) list \<Rightarrow> string list \<Rightarrow> string list" where
  "present_run data plurals = takeWhile (\<lambda>key. map_of data key \<noteq> None) plurals"

text \<open>The unit that the i18next store extracts from \<open>i18n_plural_example\<close>.\<close>

definition i18n_plural_example_unit :: json_unit where
  "i18n_plural_example_unit =
     \<lparr>ucls = I18NextUnit, uid = ''.key'', item = ItList [KStr ''key_0'', KStr ''key_1''],
      utype = T_multistring, unotes = JStr [], placeholders = JNull,
      target = PMulti [''one'', ''many''], metadata = []\<rparr>"

text \<open>
  A simple plural group whose base name has \<open>_0\<close> in it, and the unit that the
  i18next store extracts from it.
\<close>

definition i18n_defect_example :: json where
  "i18n_defect_example = JObj [(''msg_01'', JStr ''one''), (''msg_01_plural'', JStr ''many'')]"

definition i18n_defect_unit :: json_unit where
  "i18n_defect_unit =
     \<lparr>ucls = I18NextUnit, uid = ''.msg_01'',
      item = ItList [KStr ''msg_01'', KStr ''msg_01_plural''],
      utype = T_multistring, unotes = JStr [], placeholders = JNull,
      target = PMulti [''one'', ''many''], metadata = []\<rparr>"

subsection \<open>Trees that the nested store rebuilds\<close>

text \<open>
  The shape of tree for which the round trip of the plain nested store is proved: an
  object whose keys, at every level, are not empty and contain neither a dot nor an
  opening bracket, whose nested objects and arrays are not empty, and whose arrays hold
  leaves only.
\<close>

fun is_leaf :: "json \<Rightarrow> bool" where
  "is_leaf (JArr xs) = False"
| "is_leaf (JObj kvs) = False"
| "is_leaf v = True"

definition key_ok :: "string \<Rightarrow> bool" where
  "key_ok k = (k \<noteq> [] \<and> CHR ''.'' \<notin> set k \<and> CHR ''['' \<notin> set k)"

fun nested_ok :: "json \<Rightarrow> bool"
  and members_ok :: "(string \<times> json) list \<Rightarrow> bool"
where
  "nested_ok (JObj kvs) = (kvs \<noteq> [] \<and> members_ok kvs)"
| "nested_ok (JArr xs) = (xs \<noteq> [] \<and> list_all is_leaf xs)"
| "nested_ok v = True"
| "members_ok [] = True"
| "members_ok ((k, v) # kvs) =
     (key_ok k \<and> k \<notin> fst ` set kvs \<and> nested_ok v \<and> members_ok kvs)"

fun round_trippable :: "json \<Rightarrow> bool" where
  "round_trippable (JObj kvs) = members_ok kvs"
| "round_trippable v = False"

text \<open>
  The fragments that the units of an object contribute at the level of that object, one
  for each leaf, in extraction order: \<open>value_fragments k v\<close> for the member \<open>k\<close> with
  value \<open>v\<close>, \<open>member_fragments\<close> for all members.
\<close>

fun value_fragments :: "string \<Rightarrow> json \<Rightarrow> odict list"
  and member_fragments :: "(string \<times> json) list \<Rightarrow> odict list"
where
  "value_fragments k (JObj kvs) = map (\<lambda>f. [(k, JObj f)]) (member_fragments kvs)"
| "value_fragments k (JArr xs) = map (\<lambda>x. [(k, JArr [x])]) xs"
| "value_fragments k v = [[(k, v)]]"
| "member_fragments [] = []"
| "member_fragments ((k, v) # kvs) = value_fragments k v @ member_fragments kvs"

text \<open>A fragment below a path of object keys, and the identifier prefix of such a path.\<close>

definition nest_path :: "string list \<Rightarrow> json \<Rightarrow> json" where
  "nest_path ks v = foldr (\<lambda>k ret. JObj [(k, ret)]) ks v"

definition dotted :: "string list \<Rightarrow> string" where
  "dotted ks = concat (map (\<lambda>k. ''.'' @ k) ks)"

definition nested_example :: json where
  "nested_example =
     JObj [(''a'', JObj [(''b'', JStr ''x''), (''c'', JArr [JStr ''y'', JStr ''z''])])]"

section \<open>Ordered dictionaries\<close>

lemma map_of_od_set: "map_of (od_set k v d) = (map_of d)(k \<mapsto> v)"
  by (induction d) (auto simp: fun_eq_iff)

lemma keys_od_set:
  "map fst (od_set k v d) = (if k \<in> set (map fst d) then map fst d else map fst d @ [k])"
  by (induction d) (force+)

lemma od_set_new: "k \<notin> fst ` set d \<Longrightarrow> od_set k v d = d @ [(k, v)]"
  by (induction d) auto

lemma od_set_last: "k \<notin> fst ` set d \<Longrightarrow> od_set k v (d @ [(k, w)]) = d @ [(k, v)]"
  by (induction d) auto

lemma map_of_last: "k \<notin> fst ` set d \<Longrightarrow> map_of (d @ [(k, w)]) k = Some w"
  by (induction d) auto

lemma foldl_od_set_distinct:
  "distinct (map fst (acc @ ps)) \<Longrightarrow> foldl (\<lambda>d (k, v). od_set k v d) acc ps = acc @ ps"
proof (induction ps arbitrary: acc)
  case Nil
  then show ?case by simp
next
  case (Cons p ps)
  obtain k v where p: "p = (k, v)" by (cases p)
  from Cons.prems p have new: "k \<notin> fst ` set acc" by auto
  from Cons.prems p have "distinct (map fst ((acc @ [(k, v)]) @ ps))" by auto
  from Cons.IH [OF this] show ?case by (simp add: p od_set_new [OF new])
qed

lemma OrderedDict_distinct: "distinct (map fst ps) \<Longrightarrow> OrderedDict ps = ps"
  unfolding OrderedDict_def using foldl_od_set_distinct [of "[]" ps] by simp

lemma OrderedDict_single: "OrderedDict [(k, v)] = [(k, v)]"
  by (simp add: OrderedDict_def)

section \<open>The merge of the tree rebuilder\<close>

lemma merge_step:
  "merge d1 ((k, v2) # d2) = merge (od_set k (deep_merge_value (map_of d1 k) v2) d1) d2"
  by (cases "map_of d1 k"; cases v2) (auto split: json.splits)

lemma map_of_merge:
  "distinct (map fst d2) \<Longrightarrow>
   map_of (merge d1 d2) k =
     (case map_of d2 k of
        None \<Rightarrow> map_of d1 k
      | Some v2 \<Rightarrow> Some (deep_merge_value (map_of d1 k) v2))"
proof (induction d2 arbitrary: d1)
  case Nil
  then show ?case by simp
next
  case (Cons kv d2)
  obtain k' v where kv: "kv = (k', v)" by (cases kv)
  from Cons.prems kv have d: "distinct (map fst d2)" and nin: "k' \<notin> fst ` set d2" by auto
  from nin have none: "map_of d2 k' = None" by (simp add: map_of_eq_None_iff)
  show ?case
    unfolding kv merge_step
    by (simp only: Cons.IH [OF d]) (auto simp: map_of_od_set none split: option.splits)
qed

lemma keys_merge:
  "distinct (map fst d2) \<Longrightarrow>
   map fst (merge d1 d2) = map fst d1 @ filter (\<lambda>k. k \<notin> set (map fst d1)) (map fst d2)"
proof (induction d2 arbitrary: d1)
  case Nil
  then show ?case by simp
next
  case (Cons kv d2)
  obtain k' v where kv: "kv = (k', v)" by (cases kv)
  from Cons.prems kv have d: "distinct (map fst d2)" and nin: "k' \<notin> set (map fst d2)" by auto
  have f: "filter (\<lambda>k. k \<noteq> k' \<and> k \<notin> set (map fst d1)) (map fst d2) =
           filter (\<lambda>k. k \<notin> set (map fst d1)) (map fst d2)"
    using nin by (intro filter_cong) auto
  show ?case
    unfolding kv merge_step
    using f by (simp only: Cons.IH [OF d]) (auto simp: keys_od_set image_iff)
qed

lemma merge_single: "merge d1 [(k, v)] = od_set k (deep_merge_value (map_of d1 k) v) d1"
  by (simp only: merge_step merge.simps)

lemma merge_array_fragments:
  "k \<notin> fst ` set d \<Longrightarrow>
   foldl merge (d @ [(k, JArr ys)]) (map (\<lambda>x. [(k, JArr [x])]) xs) = d @ [(k, JArr (ys @ xs))]"
proof (induction xs arbitrary: ys)
  case Nil
  then show ?case by simp
next
  case (Cons x xs)
  have "merge (d @ [(k, JArr ys)]) [(k, JArr [x])] = d @ [(k, JArr (ys @ [x]))]"
    by (simp only: merge_single map_of_last [OF Cons.prems] deep_merge_value.simps
          od_set_last [OF Cons.prems])
  with Cons.IH [OF Cons.prems, of "ys @ [x]"] show ?case by simp
qed

text \<open>
  C2. The merge of \<^verbatim>\<open>serialize\<close> is the deep merge of the specification. After a
  fragment \<open>d2\<close> has been merged into \<open>d1\<close>, a key that \<open>d2\<close> does not have keeps its
  value; a key of \<open>d2\<close> that \<open>d1\<close> does not have takes the value of \<open>d2\<close>; where both
  hold an object the objects are merged recursively, where both hold an array the result
  is the array of \<open>d1\<close> followed by that of \<open>d2\<close>, and in every other collision the value
  of \<open>d2\<close> replaces that of \<open>d1\<close>. The keys of \<open>d1\<close> keep their order and the new keys
  of \<open>d2\<close> follow in their order. In particular the one-element array fragments of the
  elements \<open>xs\<close> under a key, merged one after the other into a tree that holds an array
  \<open>ys\<close> at that key, leave the single array \<open>ys @ xs\<close> there.
\<close>

theorem merge_is_deep_merge:
  "(distinct (map fst d2) \<longrightarrow>
      map_of (merge d1 d2) k =
        (case map_of d2 k of
           None \<Rightarrow> map_of d1 k
         | Some v2 \<Rightarrow> Some (deep_merge_value (map_of d1 k) v2)) \<and>
      map fst (merge d1 d2) = map fst d1 @ filter (\<lambda>k. k \<notin> set (map fst d1)) (map fst d2)) \<and>
   deep_merge_value (Some (JObj a)) (JObj b) = JObj (merge a b) \<and>
   deep_merge_value (Some (JArr xs1)) (JArr xs2) = JArr (xs1 @ xs2) \<and>
   ((\<forall>a. v1 \<noteq> Some (JObj a)) \<or> (\<forall>b. v2 \<noteq> JObj b) \<longrightarrow>
    (\<forall>a. v1 \<noteq> Some (JArr a)) \<or> (\<forall>b. v2 \<noteq> JArr b) \<longrightarrow>
      deep_merge_value v1 v2 = v2) \<and>
   (key \<notin> fst ` set d \<longrightarrow>
      foldl merge (d @ [(key, JArr ys)]) (map (\<lambda>x. [(key, JArr [x])]) xs) =
        d @ [(key, JArr (ys @ xs))])"
proof -
  have other: "deep_merge_value v1 v2 = v2"
    if "(\<forall>a. v1 \<noteq> Some (JObj a)) \<or> (\<forall>b. v2 \<noteq> JObj b)"
      and "(\<forall>a. v1 \<noteq> Some (JArr a)) \<or> (\<forall>b. v2 \<noteq> JArr b)"
    using that by (cases "(v1, v2)" rule: deep_merge_value.cases) auto
  show ?thesis
    using map_of_merge [of d2 d1 k] keys_merge [of d2 d1] merge_array_fragments [of key d ys xs] other
    by simp
qed

theorem merge_is_deep_merge_witness:
  "distinct (map fst [(''a'', JArr [JStr ''y'']), (''b'', JInt 1)]) \<and>
   map_of (merge [(''a'', JArr [JStr ''x''])] [(''a'', JArr [JStr ''y'']), (''b'', JInt 1)]) ''a'' =
     Some (JArr [JStr ''x'', JStr ''y'']) \<and>
   map fst (merge [(''a'', JArr [JStr ''x''])] [(''a'', JArr [JStr ''y'']), (''b'', JInt 1)]) =
     [''a'', ''b''] \<and>
   deep_merge_value (Some (JStr ''old'')) (JArr [JStr ''new'']) = JArr [JStr ''new''] \<and>
   ''c'' \<notin> fst ` set [(''a'', JInt 1)] \<and>
   foldl merge ([(''a'', JInt 1)] @ [(''c'', JArr [JStr ''y''])])
       (map (\<lambda>x. [(''c'', JArr [x])]) [JStr ''z'', JStr ''w'']) =
     [(''a'', JInt 1)] @ [(''c'', JArr ([JStr ''y''] @ [JStr ''z'', JStr ''w'']))]"
  using merge_is_deep_merge
    [of "[(''a'', JArr [JStr ''y'']), (''b'', JInt 1)]" "[(''a'', JArr [JStr ''x''])]" "''a''"
        a b xs1 xs2 "Some (JStr ''old'')" "JArr [JStr ''new'']" "''c''" "[(''a'', JInt 1)]"
        "[JStr ''y'']" "[JStr ''z'', JStr ''w'']"]
  by simp

section \<open>go-i18n plural forms\<close>

lemma plural_entries_zip:
  "offset + length tags \<le> length strings \<Longrightarrow>
   plural_entries strings offset tags = Inr (zip tags (map JStr (drop offset strings)))"
proof (induction tags arbitrary: offset)
  case Nil
  then show ?case by simp
next
  case (Cons t tags)
  from Cons.prems have lt: "offset < length strings"
    and le: "Suc offset + length tags \<le> length strings" by auto
  from lt have d: "drop offset strings = strings ! offset # drop (Suc offset) strings"
    by (simp add: Cons_nth_drop_Suc)
  show ?case by (simp add: lt Cons.IH [OF le] d)
qed

lemma goi18n_value_multi:
  assumes t: "target u = PMulti ts"
    and len: "length tags \<le> length strings"
    and dist: "distinct tags"
    and pad: "strings = (if length tags > length ts
                        then ts @ replicate (length tags - length ts) [] else ts)"
  shows "GoI18NJsonUnit_getvalue tags u =
     Inr (JObj ([(''id'', JStr (uid u))]
                @ (if truthy_json (unotes u) then [(''description'', unotes u)] else [])
                @ [(''translation'', JObj (zip tags (map JStr strings)))]))"
proof -
  have e: "plural_entries strings 0 tags = Inr (zip tags (map JStr strings))"
    using plural_entries_zip [of 0 tags strings] len by simp
  have "distinct (map fst (zip tags (map JStr strings)))"
    using dist len by (simp add: map_fst_zip_take distinct_take)
  then have o: "OrderedDict (zip tags (map JStr strings)) = zip tags (map JStr strings)"
    by (rule OrderedDict_distinct)
  show ?thesis
  proof (cases "length ts < length tags")
    case True
    with pad have s: "strings = ts @ replicate (length tags - length ts) []" by simp
    show ?thesis
      using e o True unfolding s
      by (simp add: GoI18NJsonUnit_getvalue_def t Let_def OrderedDict_single)
  next
    case False
    with pad have s: "strings = ts" by simp
    show ?thesis
      using e o False unfolding s
      by (simp add: GoI18NJsonUnit_getvalue_def t Let_def OrderedDict_single)
  qed
qed

lemma goi18n_pad_general:
  "target u = PMulti ts \<and> length ts < length tags \<and> distinct tags \<longrightarrow>
      GoI18NJsonUnit_getvalue tags u =
        Inr (JObj ([(''id'', JStr (uid u))]
                   @ (if truthy_json (unotes u) then [(''description'', unotes u)] else [])
                   @ [(''translation'',
                       JObj (zip tags (map JStr ts @ replicate (length tags - length ts) (JStr []))))]))"
  using goi18n_value_multi [of u ts tags "ts @ replicate (length tags - length ts) []"]
  by simp

lemma goi18n_pad_en:
  "target u = PMulti [s] \<longrightarrow>
      GoI18NJsonUnit_getvalue [''one'', ''other''] u =
        Inr (JObj ([(''id'', JStr (uid u))]
                   @ (if truthy_json (unotes u) then [(''description'', unotes u)] else [])
                   @ [(''translation'', JObj [(''one'', JStr s), (''other'', JStr [])])]))"
proof
  assume t: "target u = PMulti [s]"
  have l: "length [''one'', ''other''] \<le> length [s, []]" by simp
  have d: "distinct [''one'', ''other'']" by simp
  have p: "[s, []] = (if length [''one'', ''other''] > length [s]
      then [s] @ replicate (length [''one'', ''other''] - length [s]) [] else [s])"
    by (simp add: numeral_2_eq_2)
  have z: "zip [''one'', ''other''] (map JStr [s, []]) = [(''one'', JStr s), (''other'', JStr [])]"
    by simp
  show "GoI18NJsonUnit_getvalue [''one'', ''other''] u =
        Inr (JObj ([(''id'', JStr (uid u))]
                   @ (if truthy_json (unotes u) then [(''description'', unotes u)] else [])
                   @ [(''translation'', JObj [(''one'', JStr s), (''other'', JStr [])])]))"
    using goi18n_value_multi [OF t l d p] unfolding z .
qed

lemma split_on_nonempty: "split_on c s \<noteq> []"
  by (induction s) (auto split: list.splits)

lemma hd_split_on: "hd (split_on c s) = takeWhile (\<lambda>x. x \<noteq> c) s"
proof (induction s)
  case Nil
  then show ?case by simp
next
  case (Cons x xs)
  then show ?case
    using split_on_nonempty [of c xs] by (cases "split_on c xs") auto
qed

lemma locale_prefix:
  "hd (split_on CHR ''-'' (replace_char CHR ''_'' CHR ''-'' l)) =
   takeWhile (\<lambda>c. c \<noteq> CHR ''-'' \<and> c \<noteq> CHR ''_'') l"
  unfolding hd_split_on replace_char_def by (induction l) auto

lemma plural_tags_of_language:
  "map_of table ''en'' = Some en \<longrightarrow>
      GoI18NJsonFile_plural_tags table None = Inr en \<and>
      GoI18NJsonFile_plural_tags table (Some []) = Inr en \<and>
      (l \<noteq> [] \<longrightarrow>
         GoI18NJsonFile_plural_tags table (Some l) =
           Inr (case map_of table (takeWhile (\<lambda>c. c \<noteq> CHR ''-'' \<and> c \<noteq> CHR ''_'') l) of
                  None \<Rightarrow> en
                | Some tags \<Rightarrow> tags))"
  by (simp add: GoI18NJsonFile_plural_tags_def locale_prefix)

lemma goi18n_store_pad:
  "GoI18NJsonFile_plural_tags table lang = Inr tags \<and>
   target u = PMulti ts \<and> length ts < length tags \<and> distinct tags \<longrightarrow>
      GoI18NJsonUnit_store_getvalue table lang u =
        Inr (JObj ([(''id'', JStr (uid u))]
                   @ (if truthy_json (unotes u) then [(''description'', unotes u)] else [])
                   @ [(''translation'',
                       JObj (zip tags (map JStr ts @ replicate (length tags - length ts) (JStr []))))]))"
proof
  assume a: "GoI18NJsonFile_plural_tags table lang = Inr tags \<and>
   target u = PMulti ts \<and> length ts < length tags \<and> distinct tags"
  then have "GoI18NJsonUnit_store_getvalue table lang u = GoI18NJsonUnit_getvalue tags u"
    by (simp add: GoI18NJsonUnit_store_getvalue_def)
  with a goi18n_pad_general [of u ts tags]
  show "GoI18NJsonUnit_store_getvalue table lang u =
        Inr (JObj ([(''id'', JStr (uid u))]
                   @ (if truthy_json (unotes u) then [(''description'', unotes u)] else [])
                   @ [(''translation'',
                       JObj (zip tags (map JStr ts @ replicate (length tags - length ts) (JStr []))))]))"
    by simp
qed

lemma goi18n_store_pad_en:
  "map_of table ''en'' = Some [''one'', ''other''] \<and> target u = PMulti [s] \<longrightarrow>
      GoI18NJsonUnit_store_getvalue table None u =
        Inr (JObj ([(''id'', JStr (uid u))]
                   @ (if truthy_json (unotes u) then [(''description'', unotes u)] else [])
                   @ [(''translation'', JObj [(''one'', JStr s), (''other'', JStr [])])]))"
proof
  assume a: "map_of table ''en'' = Some [''one'', ''other''] \<and> target u = PMulti [s]"
  then have t: "GoI18NJsonFile_plural_tags table None = Inr [''one'', ''other'']"
    by (simp add: GoI18NJsonFile_plural_tags_def)
  from a have "GoI18NJsonUnit_store_getvalue table None u =
               GoI18NJsonUnit_getvalue [''one'', ''other''] u"
    by (simp add: GoI18NJsonUnit_store_getvalue_def t)
  with a goi18n_pad_en [of u s]
  show "GoI18NJsonUnit_store_getvalue table None u =
        Inr (JObj ([(''id'', JStr (uid u))]
                   @ (if truthy_json (unotes u) then [(''description'', unotes u)] else [])
                   @ [(''translation'', JObj [(''one'', JStr s), (''other'', JStr [])])]))"
    by simp
qed

text \<open>
  C7. The plural tags of a go-i18n store are those of its target locale: the tags that
  the table has for \<open>en\<close> when the store has no target language or an empty one, and
  otherwise the tags that the table has for the target language cut at its first hyphen
  or underscore, or those of \<open>en\<close> when the table does not have that locale. A unit of
  the store whose multi-string value has fewer forms than the store has plural tags
  writes a translation object with one entry for each tag, in the order of the tags: the
  forms are paired with the tags by position and the tags left over get the empty string.
  In a store without a target language, with the tags \<open>one\<close>, \<open>other\<close> for \<open>en\<close>, a
  one-form unit writes two entries, the second one empty.
\<close>

theorem goi18n_pads_missing_forms:
  "(map_of table ''en'' = Some en \<longrightarrow>
      GoI18NJsonFile_plural_tags table None = Inr en \<and>
      GoI18NJsonFile_plural_tags table (Some []) = Inr en \<and>
      (l \<noteq> [] \<longrightarrow>
         GoI18NJsonFile_plural_tags table (Some l) =
           Inr (case map_of table (takeWhile (\<lambda>c. c \<noteq> CHR ''-'' \<and> c \<noteq> CHR ''_'') l) of
                  None \<Rightarrow> en
                | Some tags \<Rightarrow> tags))) \<and>
   (GoI18NJsonFile_plural_tags table lang = Inr tags \<and>
    target u = PMulti ts \<and> length ts < length tags \<and> distinct tags \<longrightarrow>
      GoI18NJsonUnit_store_getvalue table lang u =
        Inr (JObj ([(''id'', JStr (uid u))]
                   @ (if truthy_json (unotes u) then [(''description'', unotes u)] else [])
                   @ [(''translation'',
                       JObj (zip tags (map JStr ts @ replicate (length tags - length ts) (JStr []))))]))) \<and>
   (target u = PMulti ts \<and> length ts < length tags \<and> distinct tags \<longrightarrow>
      GoI18NJsonUnit_getvalue tags u =
        Inr (JObj ([(''id'', JStr (uid u))]
                   @ (if truthy_json (unotes u) then [(''description'', unotes u)] else [])
                   @ [(''translation'',
                       JObj (zip tags (map JStr ts @ replicate (length tags - length ts) (JStr []))))]))) \<and>
   (map_of table ''en'' = Some [''one'', ''other''] \<and> target u = PMulti [s] \<longrightarrow>
      GoI18NJsonUnit_store_getvalue table None u =
        Inr (JObj ([(''id'', JStr (uid u))]
                   @ (if truthy_json (unotes u) then [(''description'', unotes u)] else [])
                   @ [(''translation'', JObj [(''one'', JStr s), (''other'', JStr [])])]))) \<and>
   (target u = PMulti [s] \<longrightarrow>
      GoI18NJsonUnit_getvalue [''one'', ''other''] u =
        Inr (JObj ([(''id'', JStr (uid u))]
                   @ (if truthy_json (unotes u) then [(''description'', unotes u)] else [])
                   @ [(''translation'', JObj [(''one'', JStr s), (''other'', JStr [])])])))"
  by (rule conjI [OF plural_tags_of_language conjI [OF goi18n_store_pad
        conjI [OF goi18n_pad_general conjI [OF goi18n_store_pad_en goi18n_pad_en]]]])

theorem goi18n_pads_missing_forms_witness:
  "map_of [(''en'', [''one'', ''other'']), (''ar'', [''zero'', ''one'', ''two'', ''few'', ''many'', ''other''])] ''en'' =
     Some [''one'', ''other''] \<and>
   ''ar_EG'' \<noteq> [] \<and>
   GoI18NJsonFile_plural_tags
     [(''en'', [''one'', ''other'']), (''ar'', [''zero'', ''one'', ''two'', ''few'', ''many'', ''other''])]
     (Some ''ar_EG'') =
     Inr [''zero'', ''one'', ''two'', ''few'', ''many'', ''other''] \<and>
   target ((base_unit GoI18NJsonUnit)\<lparr>uid := ''hello'', target := PMulti [''Hello'', ''Hellos'']\<rparr>) =
     PMulti [''Hello'', ''Hellos''] \<and>
   length [''Hello'', ''Hellos''] < length [''zero'', ''one'', ''two'', ''few'', ''many'', ''other''] \<and>
   distinct [''zero'', ''one'', ''two'', ''few'', ''many'', ''other''] \<and>
   GoI18NJsonUnit_store_getvalue
     [(''en'', [''one'', ''other'']), (''ar'', [''zero'', ''one'', ''two'', ''few'', ''many'', ''other''])]
     (Some ''ar_EG'')
     ((base_unit GoI18NJsonUnit)\<lparr>uid := ''hello'', target := PMulti [''Hello'', ''Hellos'']\<rparr>) =
     Inr (JObj [(''id'', JStr ''hello''),
                (''translation'',
                 JObj [(''zero'', JStr ''Hello''), (''one'', JStr ''Hellos''), (''two'', JStr []),
                       (''few'', JStr []), (''many'', JStr []), (''other'', JStr [])])]) \<and>
   GoI18NJsonUnit_store_getvalue
     [(''en'', [''one'', ''other'']), (''ar'', [''zero'', ''one'', ''two'', ''few'', ''many'', ''other''])]
     None
     ((base_unit GoI18NJsonUnit)\<lparr>uid := ''hello'', target := PMulti [''Hello'']\<rparr>) =
     Inr (JObj [(''id'', JStr ''hello''),
                (''translation'', JObj [(''one'', JStr ''Hello''), (''other'', JStr [])])])"
proof -
  let ?table = "[(''en'', [''one'', ''other'']),
                 (''ar'', [''zero'', ''one'', ''two'', ''few'', ''many'', ''other''])]"
  let ?u = "(base_unit GoI18NJsonUnit)\<lparr>uid := ''hello'', target := PMulti [''Hello'', ''Hellos'']\<rparr>"
  let ?v = "(base_unit GoI18NJsonUnit)\<lparr>uid := ''hello'', target := PMulti [''Hello'']\<rparr>"
  have en: "map_of ?table ''en'' = Some [''one'', ''other'']" by simp
  have ar: "map_of ?table (takeWhile (\<lambda>c. c \<noteq> CHR ''-'' \<and> c \<noteq> CHR ''_'') ''ar_EG'') =
            Some [''zero'', ''one'', ''two'', ''few'', ''many'', ''other'']" by simp
  have ne: "''ar_EG'' \<noteq> []" by simp
  note w = goi18n_pads_missing_forms
    [where table = ?table and en = "[''one'', ''other'']" and l = "''ar_EG''"
       and lang = "Some ''ar_EG''" and tags = "[''zero'', ''one'', ''two'', ''few'', ''many'', ''other'']"
       and u = ?u and ts = "[''Hello'', ''Hellos'']" and s = "''Hello''"]
  from w en ne have tags: "GoI18NJsonFile_plural_tags ?table (Some ''ar_EG'') =
      Inr [''zero'', ''one'', ''two'', ''few'', ''many'', ''other'']"
    by (simp only: ar option.case) blast
  have tu: "target ?u = PMulti [''Hello'', ''Hellos'']" by (simp add: base_unit_def)
  have len: "length [''Hello'', ''Hellos''] < length [''zero'', ''one'', ''two'', ''few'', ''many'', ''other'']"
    by simp
  have dist: "distinct [''zero'', ''one'', ''two'', ''few'', ''many'', ''other'']" by simp
  from w tags tu len dist
  have "GoI18NJsonUnit_store_getvalue ?table (Some ''ar_EG'') ?u =
        Inr (JObj ([(''id'', JStr (uid ?u))]
                   @ (if truthy_json (unotes ?u) then [(''description'', unotes ?u)] else [])
                   @ [(''translation'',
                       JObj (zip [''zero'', ''one'', ''two'', ''few'', ''many'', ''other'']
                              (map JStr [''Hello'', ''Hellos'']
                               @ replicate (length [''zero'', ''one'', ''two'', ''few'', ''many'', ''other'']
                                            - length [''Hello'', ''Hellos'']) (JStr []))))]))"
    by blast
  then have a: "GoI18NJsonUnit_store_getvalue ?table (Some ''ar_EG'') ?u =
     Inr (JObj [(''id'', JStr ''hello''),
                (''translation'',
                 JObj [(''zero'', JStr ''Hello''), (''one'', JStr ''Hellos''), (''two'', JStr []),
                       (''few'', JStr []), (''many'', JStr []), (''other'', JStr [])])])"
    by (simp add: base_unit_def numeral_eq_Suc)
  have tv: "target ?v = PMulti [''Hello'']" by (simp add: base_unit_def)
  from goi18n_pads_missing_forms [where table = ?table and u = ?v and s = "''Hello''"] en tv
  have "GoI18NJsonUnit_store_getvalue ?table None ?v =
        Inr (JObj ([(''id'', JStr (uid ?v))]
                   @ (if truthy_json (unotes ?v) then [(''description'', unotes ?v)] else [])
                   @ [(''translation'', JObj [(''one'', JStr ''Hello''), (''other'', JStr [])])]))"
    by blast
  then have b: "GoI18NJsonUnit_store_getvalue ?table None ?v =
     Inr (JObj [(''id'', JStr ''hello''),
                (''translation'', JObj [(''one'', JStr ''Hello''), (''other'', JStr [])])])"
    by (simp add: base_unit_def)
  from en ne tags tu len dist a b show ?thesis by (intro conjI)
qed




section \<open>The identifiers of the extracted units\<close>

lemma uid_setid: "uid (setid v u) = v"
  by (simp add: setid_def)

lemma render_snoc: "render (p @ [s]) = render p @ render_seg s"
  by (simp add: render_def)

lemma passes_filter_emitted:
  "passes_filter stop (name_node_at rp) (name_last_node_at rp) (last_node_at rp) =
   emitted stop (rev rp)"
proof (cases stop)
  case None
  then show ?thesis by (simp add: passes_filter_def emitted_def)
next
  case (Some keys)
  have "((last_node_at rp = DictNode \<and> in_stop (name_node_at rp) keys) \<or>
         (last_node_at rp = ListNode \<and> in_stop (name_last_node_at rp) keys)) =
        emitted_rev keys rp"
    by (cases "(keys, rp)" rule: emitted_rev.cases) auto
  with Some show ?thesis by (simp add: passes_filter_def emitted_def)
qed

lemma leaf_ids:
  "map uid (if passes_filter stop (name_node_at rp) (name_last_node_at rp) (last_node_at rp)
            then [setid (render (rev rp)) u] else []) =
   map (\<lambda>q. render (rev rp @ q)) (filter (\<lambda>q. emitted stop (rev rp @ q)) [[]])"
  by (simp add: passes_filter_emitted uid_setid)

lemma extract_ids_at:
  "map uid (extract_units cls ident v stop (render (rev rp)) (name_node_at rp)
              (name_last_node_at rp) (last_node_at rp)) =
   map (\<lambda>q. render (rev rp @ q)) (filter (\<lambda>q. emitted stop (rev rp @ q)) (leaf_paths v))"
  and extract_dict_ids_at:
  "map uid (extract_dict cls ident kvs stop (render (rev rp))) =
   map (\<lambda>q. render (rev rp @ q)) (filter (\<lambda>q. emitted stop (rev rp @ q)) (dict_paths kvs))"
  and extract_list_ids_at:
  "map uid (extract_list cls ident xs i stop (render (rev rp)) (name_node_at rp)) =
   map (\<lambda>q. render (rev rp @ q)) (filter (\<lambda>q. emitted stop (rev rp @ q)) (list_paths xs i))"
proof (induction v and kvs and xs i arbitrary: rp and rp and rp
       rule: leaf_paths_dict_paths_list_paths.induct)
  case (1 kvs)
  then show ?case by simp
next
  case (2 xs)
  then show ?case by simp
next
  case "3_1"
  show ?case unfolding extract_units.simps leaf_paths.simps by (rule leaf_ids)
next
  case "3_2"
  show ?case unfolding extract_units.simps leaf_paths.simps by (rule leaf_ids)
next
  case "3_3"
  show ?case unfolding extract_units.simps leaf_paths.simps by (rule leaf_ids)
next
  case "3_4"
  show ?case unfolding extract_units.simps leaf_paths.simps by (rule leaf_ids)
next
  case 4
  show ?case by simp
next
  case (5 k v kvs)
  have r: "render (rev rp) @ ''.'' @ k = render (rev (ObjectKey k # rp))"
    by (simp add: render_snoc)
  have "map uid (extract_units cls ident v stop (render (rev rp) @ ''.'' @ k) (Some (KStr k)) None DictNode) =
        map (\<lambda>q. render (rev (ObjectKey k # rp) @ q))
          (filter (\<lambda>q. emitted stop (rev (ObjectKey k # rp) @ q)) (leaf_paths v))"
    unfolding r using "5.IH"(1) [of "ObjectKey k # rp"] by simp
  then show ?case
    by (simp add: "5.IH"(2) filter_map comp_def)
next
  case (6 i)
  show ?case by simp
next
  case (7 x xs i)
  have r: "render (rev rp) @ ''['' @ str_nat i @ '']'' = render (rev (ArrayIndex i # rp))"
    by (simp add: render_snoc)
  have "map uid (extract_units cls ident x stop (render (rev rp) @ ''['' @ str_nat i @ '']'')
                   (Some (KInt i)) (name_node_at rp) ListNode) =
        map (\<lambda>q. render (rev (ArrayIndex i # rp) @ q))
          (filter (\<lambda>q. emitted stop (rev (ArrayIndex i # rp) @ q)) (leaf_paths x))"
    unfolding r using "7.IH"(1) [of "ArrayIndex i # rp"] by simp
  then show ?case
    by (simp add: "7.IH"(2) filter_map comp_def)
qed

lemma extract_ids:
  "map uid (extract_units cls ident v stop [] None None NoNode) =
   map render (filter (emitted stop) (leaf_paths v))"
  using extract_ids_at [of cls ident v stop "[]"] by (simp add: render_def)
lemma str_nat_0: "str_nat 0 = ''0''"
  by (simp add: str_nat.simps digit_char_def)

lemma str_nat_1: "str_nat (Suc 0) = ''1''"
  by (simp add: str_nat.simps digit_char_def)

lemma example_paths:
  "leaf_paths (JObj [(''a'', JObj [(''b'', JStr ''x''), (''c'', JArr [JStr ''y'', JStr ''z''])])]) =
     [[ObjectKey ''a'', ObjectKey ''b''],
      [ObjectKey ''a'', ObjectKey ''c'', ArrayIndex 0],
      [ObjectKey ''a'', ObjectKey ''c'', ArrayIndex (Suc 0)]]"
  by simp

lemma example_renders:
  "render [ObjectKey ''a'', ObjectKey ''b''] = ''.a.b''"
  "render [ObjectKey ''a'', ObjectKey ''c'', ArrayIndex 0] = ''.a.c[0]''"
  "render [ObjectKey ''a'', ObjectKey ''c'', ArrayIndex (Suc 0)] = ''.a.c[1]''"
  by (simp_all add: render_def str_nat_0 str_nat_1)

text \<open>
  C8. The plain nested store, without a filter, gives the tree
  \<^verbatim>\<open>{"a": {"b": "x", "c": ["y", "z"]}}\<close> exactly three units, with the identifiers
  \<^verbatim>\<open>.a.b\<close>, \<^verbatim>\<open>.a.c[0]\<close>, \<^verbatim>\<open>.a.c[1]\<close> in this order. For every tree the
  identifiers of the units are the rendered paths of its leaves, depth first; rendering
  puts a dot before each object key and writes each array index in brackets directly
  after what precedes it.
\<close>

theorem nested_identifiers:
  "map uid (extract_units JsonNestedUnit ident
              (JObj [(''a'', JObj [(''b'', JStr ''x''), (''c'', JArr [JStr ''y'', JStr ''z''])])])
              None [] None None NoNode) = [''.a.b'', ''.a.c[0]'', ''.a.c[1]''] \<and>
   length (extract_units JsonNestedUnit ident
              (JObj [(''a'', JObj [(''b'', JStr ''x''), (''c'', JArr [JStr ''y'', JStr ''z''])])])
              None [] None None NoNode) = 3 \<and>
   map uid (extract_units JsonNestedUnit ident tree None [] None None NoNode) =
     map render (leaf_paths tree) \<and>
   render [] = [] \<and>
   render (p @ [ObjectKey k]) = render p @ ''.'' @ k \<and>
   render (p @ [ArrayIndex i]) = render p @ ''['' @ str_nat i @ '']''"
proof -
  have ids: "map uid (extract_units JsonNestedUnit ident tree None [] None None NoNode) =
             map render (leaf_paths tree)" for tree
    using extract_ids [of JsonNestedUnit ident tree None] by (simp add: emitted_def)
  have ex: "map uid (extract_units JsonNestedUnit ident
              (JObj [(''a'', JObj [(''b'', JStr ''x''), (''c'', JArr [JStr ''y'', JStr ''z''])])])
              None [] None None NoNode) = [''.a.b'', ''.a.c[0]'', ''.a.c[1]'']"
    unfolding ids example_paths by (simp only: list.map example_renders)
  have "length (map uid (extract_units JsonNestedUnit ident
              (JObj [(''a'', JObj [(''b'', JStr ''x''), (''c'', JArr [JStr ''y'', JStr ''z''])])])
              None [] None None NoNode)) = 3"
    unfolding ex by simp
  then have len: "length (extract_units JsonNestedUnit ident
              (JObj [(''a'', JObj [(''b'', JStr ''x''), (''c'', JArr [JStr ''y'', JStr ''z''])])])
              None [] None None NoNode) = 3"
    by (simp only: length_map)
  have r: "render [] = []" "render (p @ [ObjectKey k]) = render p @ ''.'' @ k"
    "render (p @ [ArrayIndex i]) = render p @ ''['' @ str_nat i @ '']''"
    by (simp_all add: render_def)
  show ?thesis by (intro conjI) (rule ex len ids r)+
qed

lemma emitted_rules:
  "emitted None p"
  "emitted (Some keys) (p @ [ObjectKey k]) = (k \<in> set keys)"
  "emitted (Some keys) (p @ [ObjectKey k, ArrayIndex i]) = (k \<in> set keys)"
  "emitted (Some keys) (p @ [ArrayIndex j, ArrayIndex i]) = False"
  "emitted (Some keys) [ArrayIndex i] = False"
  "emitted (Some keys) [] = False"
  by (simp_all add: emitted_def)

text \<open>
  C3. With a filter the generic extractor yields the units of exactly those leaves that
  the filter lets through, in depth-first order: every leaf when the filter is
  \<^verbatim>\<open>None\<close>; otherwise a leaf directly in an object whose own key is in the filter,
  and a leaf directly in an array when the array is the value of an object key that is in
  the filter. A leaf of an array that does not sit under an object key (an array inside
  an array, or the array at the root) and a leaf at the root pass no filter. For the
  tree \<^verbatim>\<open>{"a": {"b": "x", "c": ["y", "z"]}}\<close> the filter \<open>b\<close> yields the one
  unit \<^verbatim>\<open>.a.b\<close>, and the filter \<open>c\<close> the two units \<^verbatim>\<open>.a.c[0]\<close> and
  \<^verbatim>\<open>.a.c[1]\<close>.
\<close>

theorem filtered_extraction:
  "map uid (extract_units cls ident tree stop [] None None NoNode) =
     map render (filter (emitted stop) (leaf_paths tree)) \<and>
   emitted None p \<and>
   emitted (Some keys) (p @ [ObjectKey k]) = (k \<in> set keys) \<and>
   emitted (Some keys) (p @ [ObjectKey k, ArrayIndex i]) = (k \<in> set keys) \<and>
   emitted (Some keys) (p @ [ArrayIndex j, ArrayIndex i]) = False \<and>
   emitted (Some keys) [ArrayIndex i] = False \<and>
   emitted (Some keys) [] = False \<and>
   map uid (extract_units cls ident
              (JObj [(''a'', JObj [(''b'', JStr ''x''), (''c'', JArr [JStr ''y'', JStr ''z''])])])
              (Some [''b'']) [] None None NoNode) = [''.a.b''] \<and>
   map uid (extract_units cls ident
              (JObj [(''a'', JObj [(''b'', JStr ''x''), (''c'', JArr [JStr ''y'', JStr ''z''])])])
              (Some [''c'']) [] None None NoNode) = [''.a.c[0]'', ''.a.c[1]'']"
proof -
  have f1: "filter (emitted (Some [''b'']))
       [[ObjectKey ''a'', ObjectKey ''b''],
        [ObjectKey ''a'', ObjectKey ''c'', ArrayIndex 0],
        [ObjectKey ''a'', ObjectKey ''c'', ArrayIndex (Suc 0)]] =
       [[ObjectKey ''a'', ObjectKey ''b'']]"
    by (simp add: emitted_def)
  have f2: "filter (emitted (Some [''c'']))
       [[ObjectKey ''a'', ObjectKey ''b''],
        [ObjectKey ''a'', ObjectKey ''c'', ArrayIndex 0],
        [ObjectKey ''a'', ObjectKey ''c'', ArrayIndex (Suc 0)]] =
       [[ObjectKey ''a'', ObjectKey ''c'', ArrayIndex 0],
        [ObjectKey ''a'', ObjectKey ''c'', ArrayIndex (Suc 0)]]"
    by (simp add: emitted_def)
  have e1: "map uid (extract_units cls ident
              (JObj [(''a'', JObj [(''b'', JStr ''x''), (''c'', JArr [JStr ''y'', JStr ''z''])])])
              (Some [''b'']) [] None None NoNode) = [''.a.b'']"
    unfolding extract_ids example_paths f1 by (simp only: list.map example_renders)
  have e2: "map uid (extract_units cls ident
              (JObj [(''a'', JObj [(''b'', JStr ''x''), (''c'', JArr [JStr ''y'', JStr ''z''])])])
              (Some [''c'']) [] None None NoNode) = [''.a.c[0]'', ''.a.c[1]'']"
    unfolding extract_ids example_paths f2 by (simp only: list.map example_renders)
  show ?thesis by (intro conjI) (rule extract_ids emitted_rules e1 e2)+
qed

section \<open>ARB metadata\<close>

lemma keys_set_od_set: "fst ` set (od_set k v d) = insert k (fst ` set d)"
proof -
  have "set (map fst (od_set k v d)) = insert k (set (map fst d))"
    unfolding keys_od_set by auto
  then show ?thesis by simp
qed

lemma gen_then_ok: "fst (gen_then (us, None) g) = us @ fst g"
  by (simp add: gen_then_def)

lemma arb_items_ids:
  "u \<in> set (fst (arb_items ident data kvs)) \<Longrightarrow> \<not> startswith (uid u) ''@''"
proof (induction kvs)
  case Nil
  then show ?case by simp
next
  case (Cons kv kvs)
  obtain name v where kv: "kv = (name, v)" by (cases kv)
  show ?case
  proof (cases "startswith name ''@''")
    case True
    with Cons kv show ?thesis by simp
  next
    case False
    show ?thesis
    proof (cases "arb_metadata data name")
      case (Inl e)
      with Cons.prems kv False show ?thesis by simp
    next
      case (Inr md)
      with Cons.prems kv False
      have "u = setid name (ARBJsonUnit_init ident (PJson v) (Some (ItOne (KStr name)))
                    (dict_get md ''description'' (JStr [])) (dict_get md ''placeholders'' JNull) md)
            \<or> u \<in> set (fst (arb_items ident data kvs))"
        by (simp add: gen_then_ok)
      then show ?thesis
      proof
        assume "u = setid name (ARBJsonUnit_init ident (PJson v) (Some (ItOne (KStr name)))
                    (dict_get md ''description'' (JStr [])) (dict_get md ''placeholders'' JNull) md)"
        then have "uid u = name" by (simp add: setid_def)
        with False show ?thesis by simp
      next
        assume "u \<in> set (fst (arb_items ident data kvs))"
        then show ?thesis by (rule Cons.IH)
      qed
    qed
  qed
qed

lemma arb_header_unit:
  "ARBJsonUnit_init ident (PJson JNull) None JNull JNull md =
     \<lparr>ucls = ARBJsonUnit, uid = ident, item = ItOne (KStr ident), utype = T_str,
      unotes = JStr [], placeholders = JNull, target = PJson JNull, metadata = md\<rparr>"
  by (simp add: ARBJsonUnit_init_def JsonUnit_init_def base_unit_def base_init_def)

lemma arb_header_iff:
  "(\<exists>u \<in> set (fst (ARBJsonFile_extract_units ident (JObj kvs))). uid u = ''@'') =
   (\<exists>key \<in> set (map fst kvs). startswith key ''@@'')"
proof -
  let ?md = "OrderedDict (filter (\<lambda>(key, v). startswith key ''@@'') kvs)"
  have keys: "map fst ?md = [] \<longleftrightarrow> \<not> (\<exists>key \<in> set (map fst kvs). startswith key ''@@'')"
  proof -
    have "fst ` set (foldl (\<lambda>d (k, v). od_set k v d) acc ps) = fst ` set acc \<union> fst ` set ps"
      for acc ps :: "(string \<times> json) list"
    proof (induction ps arbitrary: acc)
      case Nil
      then show ?case by simp
    next
      case (Cons p ps)
      obtain k v where p: "p = (k, v)" by (cases p)
      show ?case unfolding p by (simp add: Cons.IH keys_set_od_set)
    qed
    from this [of "[]" "filter (\<lambda>(key, v). startswith key ''@@'') kvs"]
    have "set (map fst ?md) = set (map fst (filter (\<lambda>(key, v). startswith key ''@@'') kvs))"
      by (simp add: OrderedDict_def)
    then have "(map fst ?md = []) = (filter (\<lambda>(key, v). startswith key ''@@'') kvs = [])"
      by (metis map_is_Nil_conv set_empty)
    then show ?thesis by (auto simp: filter_empty_conv)
  qed
  have noat: "\<not> (\<exists>u \<in> set (fst (arb_items ident kvs kvs)). uid u = ''@'')"
  proof
    assume "\<exists>u \<in> set (fst (arb_items ident kvs kvs)). uid u = ''@''"
    then obtain u where u: "u \<in> set (fst (arb_items ident kvs kvs))" and at: "uid u = ''@''"
      by blast
    from arb_items_ids [OF u] show False by (simp add: startswith_def at)
  qed
  show ?thesis
  proof (cases "?md = []")
    case True
    with keys noat show ?thesis
      by (simp add: ARBJsonFile_extract_units_def gen_then_ok)
  next
    case False
    with keys have "\<exists>key \<in> set (map fst kvs). startswith key ''@@''" by auto
    with False show ?thesis
      by (simp add: ARBJsonFile_extract_units_def gen_then_ok Let_def setid_def)
  qed
qed

lemma arb_example_units:
  "ARBJsonFile_extract_units ident arb_example =
     ([\<lparr>ucls = ARBJsonUnit, uid = ''@'', item = ItOne (KStr ident), utype = T_str,
        unotes = JStr [], placeholders = JNull, target = PJson JNull,
        metadata = [(''@@locale'', JStr ''en'')]\<rparr>,
       \<lparr>ucls = ARBJsonUnit, uid = ''greeting'', item = ItOne (KStr ''greeting''), utype = T_str,
        unotes = JStr ''salutes'', placeholders = JNull, target = PJson (JStr ''Hi''),
        metadata = [(''description'', JStr ''salutes'')]\<rparr>], None)"
  by (simp add: arb_example_def ARBJsonFile_extract_units_def OrderedDict_def startswith_def
        arb_header_unit setid_def gen_then_def arb_metadata_def dict_get_def
        ARBJsonUnit_init_def JsonUnit_init_def base_unit_def base_init_def)

text \<open>
  C6, as the code has it. The ARB store gives the document
  \<^verbatim>\<open>{"@@locale": "en", "greeting": "Hi", "@greeting": {"description": "salutes"}}\<close>
  exactly two units: a header unit with the identifier \<^verbatim>\<open>@\<close>, whose value is the
  object of the \<^verbatim>\<open>@@\<close>-prefixed entries with their keys unchanged,
  \<^verbatim>\<open>{"@@locale": "en"}\<close>, and a data unit with the identifier \<^verbatim>\<open>greeting\<close>, the
  target \<^verbatim>\<open>Hi\<close> and the note \<^verbatim>\<open>salutes\<close>. For every object, a unit with the
  identifier \<^verbatim>\<open>@\<close> is among the extracted units exactly when some key of the object
  starts with \<^verbatim>\<open>@@\<close>.
\<close>

theorem arb_metadata_isolation:
  "(\<exists>hdr u. ARBJsonFile_extract_units ident arb_example = ([hdr, u], None) \<and>
      uid hdr = ''@'' \<and>
      ARBJsonUnit_getvalue hdr = Inr (JObj [(''@@locale'', JStr ''en'')]) \<and>
      uid u = ''greeting'' \<and> unotes u = JStr ''salutes'' \<and> target u = PJson (JStr ''Hi'')) \<and>
   ((\<exists>u \<in> set (fst (ARBJsonFile_extract_units ident (JObj kvs))). uid u = ''@'') =
    (\<exists>key \<in> set (map fst kvs). startswith key ''@@''))"
proof (rule conjI)
  show "\<exists>hdr u. ARBJsonFile_extract_units ident arb_example = ([hdr, u], None) \<and>
      uid hdr = ''@'' \<and>
      ARBJsonUnit_getvalue hdr = Inr (JObj [(''@@locale'', JStr ''en'')]) \<and>
      uid u = ''greeting'' \<and> unotes u = JStr ''salutes'' \<and> target u = PJson (JStr ''Hi'')"
    unfolding arb_example_units by (simp add: ARBJsonUnit_getvalue_def)
next
  show "(\<exists>u \<in> set (fst (ARBJsonFile_extract_units ident (JObj kvs))). uid u = ''@'') =
    (\<exists>key \<in> set (map fst kvs). startswith key ''@@'')"
    by (rule arb_header_iff)
qed

theorem arb_metadata_isolation_witness:
  "(\<exists>u \<in> set (fst (ARBJsonFile_extract_units ''0'' (JObj [(''@@locale'', JStr ''en'')]))). uid u = ''@'') \<and>
   (\<exists>key \<in> set (map fst [(''@@locale'', JStr ''en'')]). startswith key ''@@'') \<and>
   \<not> (\<exists>u \<in> set (fst (ARBJsonFile_extract_units ''0'' (JObj [(''greeting'', JStr ''Hi'')]))). uid u = ''@'') \<and>
   \<not> (\<exists>key \<in> set (map fst [(''greeting'', JStr ''Hi'')]). startswith key ''@@'')"
  using arb_metadata_isolation [of "''0''" "[(''@@locale'', JStr ''en'')]"]
    arb_metadata_isolation [of "''0''" "[(''greeting'', JStr ''Hi'')]"]
  by (simp add: startswith_def)

theorem arb_header_value_counterexample:
  "uid (hd (fst (ARBJsonFile_extract_units ''0'' arb_example))) = ''@'' \<and>
   ARBJsonUnit_getvalue (hd (fst (ARBJsonFile_extract_units ''0'' arb_example))) =
     Inr (JObj [(''@@locale'', JStr ''en'')]) \<and>
   ARBJsonUnit_getvalue (hd (fst (ARBJsonFile_extract_units ''0'' arb_example))) \<noteq>
     Inr (JObj [(''locale'', JStr ''en'')])"
  unfolding arb_example_units by (simp add: ARBJsonUnit_getvalue_def)

section \<open>Loading\<close>





section \<open>i18next plural groups\<close>

lemma collect_plurals_run:
  "collect_plurals data plurals =
     (map (\<lambda>key. the (map_of data key)) (present_run data plurals), present_run data plurals)"
  by (induction plurals) (auto simp: present_run_def split: option.splits)

lemma I18NextUnit_init_plural:
  assumes "length ss = length items"
  shows "I18NextUnit_init ident (PMulti ss) (Some (ItList items)) JNull JNull =
     Inr \<lparr>ucls = I18NextUnit, uid = CHR ''.'' # ident, item = ItList items, utype = T_multistring,
          unotes = JStr [], placeholders = JNull, target = PMulti ss, metadata = []\<rparr>"
proof -
  have s: "I18NextUnit_set_target (PMulti ss) u = Inr (u\<lparr>item := ItList items, target := PMulti ss\<rparr>)"
    if "item u = ItList items" for u
    using that assms by (simp add: I18NextUnit_set_target_def)
  show ?thesis
    by (cases "truthy (PMulti ss)")
       (simp_all add: I18NextUnit_init_def base_unit_def base_init_def s)
qed

lemma plural_unit_run:
  assumes run: "present_run data plurals \<noteq> []"
    and strs: "\<forall>key \<in> set (present_run data plurals). is_JStr (the (map_of data key))"
  shows "plural_unit ident data plurals prev plural_base =
     Inr \<lparr>ucls = I18NextUnit, uid = prev @ ''.'' @ plural_base,
          item = ItList (map KStr (present_run data plurals)), utype = T_multistring,
          unotes = JStr [], placeholders = JNull,
          target = PMulti (map (\<lambda>key. the_JStr (the (map_of data key))) (present_run data plurals)),
          metadata = []\<rparr>"
proof -
  let ?run = "present_run data plurals"
  let ?sources = "map (\<lambda>key. the (map_of data key)) ?run"
  have m: "multistring ?sources = Inr (PMulti (map (\<lambda>key. the_JStr (the (map_of data key))) ?run))"
    using run strs by (simp add: multistring_def list_all_iff comp_def)
  have i: "I18NextUnit_init ident (PMulti (map (\<lambda>key. the_JStr (the (map_of data key))) ?run))
             (Some (ItList (map KStr ?run))) JNull JNull =
           Inr \<lparr>ucls = I18NextUnit, uid = CHR ''.'' # ident, item = ItList (map KStr ?run),
                utype = T_multistring, unotes = JStr [], placeholders = JNull,
                target = PMulti (map (\<lambda>key. the_JStr (the (map_of data key))) ?run), metadata = []\<rparr>"
    by (rule I18NextUnit_init_plural) simp
  show ?thesis
    unfolding plural_unit_def collect_plurals_run
    by (simp add: m i setid_def)
qed

lemma i18n_dict_indexed_step:
  assumes "k \<notin> set processed" and "k \<notin> set ps" and "k @ ''_plural'' \<notin> set ps"
    and "rsplit_last CHR ''_'' k = Some (plural_base, digit)"
    and "plural_base \<in> set pm" and "isdigit digit"
  shows "i18n_dict ident data ((k, v) # rest) pm ps processed stop prev =
     gen_then (gen_unit (plural_unit ident data (indexed_keys plural_base) prev plural_base))
       (i18n_dict ident data rest (remove1 plural_base pm) ps
          (processed @ present_run data (indexed_keys plural_base)) stop prev)"
  using assms by (simp add: indexed_keys_def collect_plurals_run Let_def)

lemma i18n_gap_example_units:
  "i18n_extract_units ident i18n_gap_example None [] None None NoNode =
  ([\<lparr>ucls = I18NextUnit, uid = ''.key'', item = ItList [KStr ''key_0''], utype = T_multistring,
      unotes = JStr [], placeholders = JNull, target = PMulti [''a''], metadata = []\<rparr>,
    \<lparr>ucls = I18NextUnit, uid = ''.key_2'', item = ItOne (KStr ''key_2''), utype = T_str,
      unotes = JStr [], placeholders = JNull, target = PJson (JStr ''c''), metadata = []\<rparr>], None)"
  unfolding i18n_gap_example_def by code_simp

lemma indexed_keys_list:
  "indexed_keys b =
     [b @ ''_0'', b @ ''_1'', b @ ''_2'', b @ ''_3'', b @ ''_4'',
      b @ ''_5'', b @ ''_6'', b @ ''_7'', b @ ''_8'', b @ ''_9'']"
  unfolding indexed_keys_def by code_simp

text \<open>
  C5, as the code has it. An indexed plural group with missing indices is not an error,
  but the group is rebuilt only from the keys \<open>base_0\<close>, \<open>base_1\<close>, ... up to the
  first index that the object does not have: the loop over \<open>base_0\<close> to \<open>base_9\<close>
  stops at the first missing key. The unit of the group holds the values of this run in
  ascending order as its multi-string value, and the keys of the run as its local keys;
  nothing is padded. A key behind the gap is not part of the group: in
  \<^verbatim>\<open>{"key_0": "a", "key_2": "c"}\<close> the group \<^verbatim>\<open>.key\<close> has the one form \<open>a\<close>, and
  \<^verbatim>\<open>key_2\<close> becomes a unit of its own.
\<close>

theorem i18n_group_up_to_first_gap:
  "(present_run data (indexed_keys plural_base) \<noteq> [] \<and>
    (\<forall>key \<in> set (present_run data (indexed_keys plural_base)). is_JStr (the (map_of data key))) \<longrightarrow>
      plural_unit ident data (indexed_keys plural_base) prev plural_base =
        Inr \<lparr>ucls = I18NextUnit, uid = prev @ ''.'' @ plural_base,
             item = ItList (map KStr (present_run data (indexed_keys plural_base))),
             utype = T_multistring, unotes = JStr [], placeholders = JNull,
             target = PMulti (map (\<lambda>key. the_JStr (the (map_of data key)))
                                (present_run data (indexed_keys plural_base))),
             metadata = []\<rparr>) \<and>
   (k \<notin> set processed \<and> k \<notin> set ps \<and> k @ ''_plural'' \<notin> set ps \<and>
    rsplit_last CHR ''_'' k = Some (plural_base, digit) \<and> plural_base \<in> set pm \<and> isdigit digit \<longrightarrow>
      i18n_dict ident data ((k, v) # rest) pm ps processed stop prev =
        gen_then (gen_unit (plural_unit ident data (indexed_keys plural_base) prev plural_base))
          (i18n_dict ident data rest (remove1 plural_base pm) ps
             (processed @ present_run data (indexed_keys plural_base)) stop prev)) \<and>
   present_run data (indexed_keys plural_base) =
     takeWhile (\<lambda>key. map_of data key \<noteq> None)
       [plural_base @ ''_0'', plural_base @ ''_1'', plural_base @ ''_2'', plural_base @ ''_3'',
        plural_base @ ''_4'', plural_base @ ''_5'', plural_base @ ''_6'', plural_base @ ''_7'',
        plural_base @ ''_8'', plural_base @ ''_9''] \<and>
   i18n_extract_units ident i18n_gap_example None [] None None NoNode =
     ([\<lparr>ucls = I18NextUnit, uid = ''.key'', item = ItList [KStr ''key_0''], utype = T_multistring,
        unotes = JStr [], placeholders = JNull, target = PMulti [''a''], metadata = []\<rparr>,
       \<lparr>ucls = I18NextUnit, uid = ''.key_2'', item = ItOne (KStr ''key_2''), utype = T_str,
        unotes = JStr [], placeholders = JNull, target = PJson (JStr ''c''), metadata = []\<rparr>], None)"
proof (intro conjI impI)
  assume "present_run data (indexed_keys plural_base) \<noteq> [] \<and>
    (\<forall>key \<in> set (present_run data (indexed_keys plural_base)). is_JStr (the (map_of data key)))"
  then show "plural_unit ident data (indexed_keys plural_base) prev plural_base =
        Inr \<lparr>ucls = I18NextUnit, uid = prev @ ''.'' @ plural_base,
             item = ItList (map KStr (present_run data (indexed_keys plural_base))),
             utype = T_multistring, unotes = JStr [], placeholders = JNull,
             target = PMulti (map (\<lambda>key. the_JStr (the (map_of data key)))
                                (present_run data (indexed_keys plural_base))),
             metadata = []\<rparr>"
    using plural_unit_run [of data "indexed_keys plural_base" ident prev plural_base] by blast
next
  assume "k \<notin> set processed \<and> k \<notin> set ps \<and> k @ ''_plural'' \<notin> set ps \<and>
    rsplit_last CHR ''_'' k = Some (plural_base, digit) \<and> plural_base \<in> set pm \<and> isdigit digit"
  then show "i18n_dict ident data ((k, v) # rest) pm ps processed stop prev =
        gen_then (gen_unit (plural_unit ident data (indexed_keys plural_base) prev plural_base))
          (i18n_dict ident data rest (remove1 plural_base pm) ps
             (processed @ present_run data (indexed_keys plural_base)) stop prev)"
    using i18n_dict_indexed_step [of k processed ps plural_base digit pm ident data v rest stop prev]
    by blast
next
  show "present_run data (indexed_keys plural_base) =
     takeWhile (\<lambda>key. map_of data key \<noteq> None)
       [plural_base @ ''_0'', plural_base @ ''_1'', plural_base @ ''_2'', plural_base @ ''_3'',
        plural_base @ ''_4'', plural_base @ ''_5'', plural_base @ ''_6'', plural_base @ ''_7'',
        plural_base @ ''_8'', plural_base @ ''_9'']"
    unfolding present_run_def indexed_keys_list ..
next
  show "i18n_extract_units ident i18n_gap_example None [] None None NoNode =
     ([\<lparr>ucls = I18NextUnit, uid = ''.key'', item = ItList [KStr ''key_0''], utype = T_multistring,
        unotes = JStr [], placeholders = JNull, target = PMulti [''a''], metadata = []\<rparr>,
       \<lparr>ucls = I18NextUnit, uid = ''.key_2'', item = ItOne (KStr ''key_2''), utype = T_str,
        unotes = JStr [], placeholders = JNull, target = PJson (JStr ''c''), metadata = []\<rparr>], None)"
    by (rule i18n_gap_example_units)
qed

theorem i18n_group_up_to_first_gap_witness:
  "present_run [(''n_0'', JStr ''a''), (''n_1'', JStr ''b''), (''n_3'', JStr ''d'')] (indexed_keys ''n'') =
     [''n_0'', ''n_1''] \<and>
   is_JStr (the (map_of [(''n_0'', JStr ''a''), (''n_1'', JStr ''b''), (''n_3'', JStr ''d'')] ''n_0'')) \<and>
   is_JStr (the (map_of [(''n_0'', JStr ''a''), (''n_1'', JStr ''b''), (''n_3'', JStr ''d'')] ''n_1'')) \<and>
   plural_unit ''0'' [(''n_0'', JStr ''a''), (''n_1'', JStr ''b''), (''n_3'', JStr ''d'')]
       (indexed_keys ''n'') ''.m'' ''n'' =
     Inr \<lparr>ucls = I18NextUnit, uid = ''.m.n'', item = ItList [KStr ''n_0'', KStr ''n_1''],
          utype = T_multistring, unotes = JStr [], placeholders = JNull,
          target = PMulti [''a'', ''b''], metadata = []\<rparr> \<and>
   ''n_1'' \<notin> set [] \<and> ''n_1'' \<notin> set [] \<and> ''n_1'' @ ''_plural'' \<notin> set [] \<and>
   rsplit_last CHR ''_'' ''n_1'' = Some (''n'', ''1'') \<and> ''n'' \<in> set [''n''] \<and> isdigit ''1'' \<and>
   i18n_dict ''0'' [(''n_1'', JStr ''b''), (''n_0'', JStr ''a''), (''n_3'', JStr ''d'')]
       ((''n_1'', JStr ''b'') # [(''n_0'', JStr ''a''), (''n_3'', JStr ''d'')]) [''n''] [] [] None ''.m'' =
     gen_then
       (gen_unit (plural_unit ''0'' [(''n_1'', JStr ''b''), (''n_0'', JStr ''a''), (''n_3'', JStr ''d'')]
                    (indexed_keys ''n'') ''.m'' ''n''))
       (i18n_dict ''0'' [(''n_1'', JStr ''b''), (''n_0'', JStr ''a''), (''n_3'', JStr ''d'')]
          [(''n_0'', JStr ''a''), (''n_3'', JStr ''d'')] (remove1 ''n'' [''n'']) []
          ([] @ present_run [(''n_1'', JStr ''b''), (''n_0'', JStr ''a''), (''n_3'', JStr ''d'')]
                  (indexed_keys ''n'')) None ''.m'')"
proof -
  have run: "present_run [(''n_0'', JStr ''a''), (''n_1'', JStr ''b''), (''n_3'', JStr ''d'')] (indexed_keys ''n'') =
     [''n_0'', ''n_1'']"
    by code_simp
  have strs: "\<forall>key \<in> set [''n_0'', ''n_1''].
      is_JStr (the (map_of [(''n_0'', JStr ''a''), (''n_1'', JStr ''b''), (''n_3'', JStr ''d'')] key))"
    by simp
  have h2: "''n_1'' \<notin> set [] \<and> ''n_1'' \<notin> set [] \<and> ''n_1'' @ ''_plural'' \<notin> set [] \<and>
   rsplit_last CHR ''_'' ''n_1'' = Some (''n'', ''1'') \<and> ''n'' \<in> set [''n''] \<and> isdigit ''1''"
    by (simp add: rsplit_last_def isdigit_def isdigit_char_def)
  show ?thesis
    using i18n_group_up_to_first_gap
      [of "[(''n_0'', JStr ''a''), (''n_1'', JStr ''b''), (''n_3'', JStr ''d'')]" "''n''" "''0''" "''.m''"
          k processed ps digit pm v rest stop]
      i18n_group_up_to_first_gap
      [of "[(''n_1'', JStr ''b''), (''n_0'', JStr ''a''), (''n_3'', JStr ''d'')]" "''n''" "''0''" "''.m''"
          "''n_1''" "[]" "[]" "''1''" "[''n'']" "JStr ''b''" "[(''n_0'', JStr ''a''), (''n_3'', JStr ''d'')]" None]
      run strs h2
    by simp
qed

theorem i18n_gap_counterexample:
  "map item (fst (i18n_extract_units ''0'' i18n_gap_example None [] None None NoNode)) =
     [ItList [KStr ''key_0''], ItOne (KStr ''key_2'')] \<and>
   map target (fst (i18n_extract_units ''0'' i18n_gap_example None [] None None NoNode)) =
     [PMulti [''a''], PJson (JStr ''c'')] \<and>
   target (hd (fst (i18n_extract_units ''0'' i18n_gap_example None [] None None NoNode))) \<noteq>
     PMulti [''a'', ''c'']"
  unfolding i18n_gap_example_def by code_simp

section \<open>i18next plural keys\<close>

lemma contains_suffix: "contains p (s @ p)"
  by (induction s) (simp_all, cases p, simp_all)

lemma get_base_indexed: "get_base (KStr (b @ ''_0'') # its) = Inr b"
  using contains_suffix [of "''_0''" b] by simp

lemma get_base_plain: "\<not> contains ''_0'' b \<Longrightarrow> get_base (KStr b # its) = Inr b"
  by simp

lemma set_target_regenerates:
  assumes "item u = ItList its" and "length ss \<noteq> length its" and "get_base its = Inr b"
  shows "I18NextUnit_set_target (PMulti ss) u =
     Inr (u\<lparr>item := ItList (map KStr
                 (if length ss \<le> 2 then take (length ss) [b, b @ ''_plural'']
                  else map (\<lambda>i. b @ ''_'' @ str_nat i) [0..<length ss])),
            target := PMulti ss\<rparr>)"
  using assms by (simp add: I18NextUnit_set_target_def get_plurals_def)

lemma i18n_plural_example_units:
  "i18n_extract_units ident i18n_plural_example None [] None None NoNode =
     ([i18n_plural_example_unit], None)"
  unfolding i18n_plural_example_def i18n_plural_example_unit_def by code_simp

lemma i18n_plural_example_regenerate:
  "I18NextUnit_set_target (PMulti [f0, f1, f2]) i18n_plural_example_unit =
     Inr (i18n_plural_example_unit
            \<lparr>item := ItList [KStr ''key_0'', KStr ''key_1'', KStr ''key_2''],
             target := PMulti [f0, f1, f2]\<rparr>)"
  unfolding i18n_plural_example_unit_def by code_simp

lemma i18n_plural_example_serialize:
  "JsonFile_serialize
     [i18n_plural_example_unit
        \<lparr>item := ItList [KStr ''key_0'', KStr ''key_1'', KStr ''key_2''],
         target := PMulti [f0, f1, f2]\<rparr>] =
   Inr (JObj [(''key_0'', JStr f0), (''key_1'', JStr f1), (''key_2'', JStr f2)])"
  unfolding i18n_plural_example_unit_def by code_simp

text \<open>
  C4. The i18next store gives \<^verbatim>\<open>{"key_0": "one", "key_1": "many"}\<close> exactly one unit,
  with the two forms as its value and the local keys \<^verbatim>\<open>key_0\<close>, \<^verbatim>\<open>key_1\<close>;
  assigning three forms regenerates the keys \<^verbatim>\<open>key_0\<close>, \<^verbatim>\<open>key_1\<close>, \<^verbatim>\<open>key_2\<close>,
  which serialising writes. The keys are not regenerated from the base name of every
  plural unit, though: \<^verbatim>\<open>get_base\<close> looks for \<open>_0\<close> anywhere in the first key and
  then cuts its last two characters. The store gives
  \<^verbatim>\<open>{"msg_01": "one", "msg_01_plural": "many"}\<close> the unit \<^verbatim>\<open>.msg_01\<close> of the group
  with the base name \<^verbatim>\<open>msg_01\<close>, but for this unit \<^verbatim>\<open>get_base\<close> returns
  \<^verbatim>\<open>msg_\<close>: three forms regenerate the keys \<^verbatim>\<open>msg__0\<close>, \<^verbatim>\<open>msg__1\<close>,
  \<^verbatim>\<open>msg__2\<close>, and one form the key \<^verbatim>\<open>msg_\<close>.
\<close>

theorem i18n_get_base_substring_defect:
  "i18n_extract_units ''0'' i18n_plural_example None [] None None NoNode =
     ([i18n_plural_example_unit], None) \<and>
   I18NextUnit_set_target (PMulti [''a'', ''b'', ''c'']) i18n_plural_example_unit =
     Inr (i18n_plural_example_unit
            \<lparr>item := ItList [KStr ''key_0'', KStr ''key_1'', KStr ''key_2''],
             target := PMulti [''a'', ''b'', ''c'']\<rparr>) \<and>
   JsonFile_serialize
     [i18n_plural_example_unit
        \<lparr>item := ItList [KStr ''key_0'', KStr ''key_1'', KStr ''key_2''],
         target := PMulti [''a'', ''b'', ''c'']\<rparr>] =
     Inr (JObj [(''key_0'', JStr ''a''), (''key_1'', JStr ''b''), (''key_2'', JStr ''c'')]) \<and>
   i18n_extract_units ''0'' i18n_defect_example None [] None None NoNode =
     ([i18n_defect_unit], None) \<and>
   uid i18n_defect_unit = ''.msg_01'' \<and>
   item i18n_defect_unit = ItList [KStr ''msg_01'', KStr ''msg_01_plural''] \<and>
   get_base [KStr ''msg_01'', KStr ''msg_01_plural''] = Inr ''msg_'' \<and>
   I18NextUnit_set_target (PMulti [''a'', ''b'', ''c'']) i18n_defect_unit =
     Inr (i18n_defect_unit
            \<lparr>item := ItList [KStr ''msg__0'', KStr ''msg__1'', KStr ''msg__2''],
             target := PMulti [''a'', ''b'', ''c'']\<rparr>) \<and>
   JsonFile_serialize
     [i18n_defect_unit
        \<lparr>item := ItList [KStr ''msg__0'', KStr ''msg__1'', KStr ''msg__2''],
         target := PMulti [''a'', ''b'', ''c'']\<rparr>] =
     Inr (JObj [(''msg__0'', JStr ''a''), (''msg__1'', JStr ''b''), (''msg__2'', JStr ''c'')]) \<and>
   I18NextUnit_set_target (PMulti [''a'']) i18n_defect_unit =
     Inr (i18n_defect_unit\<lparr>item := ItList [KStr ''msg_''], target := PMulti [''a'']\<rparr>)"
  unfolding i18n_plural_example_def i18n_plural_example_unit_def
    i18n_defect_example_def i18n_defect_unit_def
  by code_simp

section \<open>The round trip of the nested store\<close>

subsection \<open>Identifiers read back as keys\<close>

lemma split_on_none: "c \<notin> set s \<Longrightarrow> split_on c s = [s]"
  by (induction s) auto

lemma split_on_sep: "c \<notin> set a \<Longrightarrow> split_on c (a @ c # b) = a # split_on c b"
  by (induction a) auto

lemma split_on_dotted:
  "CHR ''.'' \<notin> set s \<Longrightarrow> \<forall>t \<in> set segs. CHR ''.'' \<notin> set t \<Longrightarrow>
   split_on CHR ''.'' (s @ dotted segs) = s # segs"
proof (induction segs arbitrary: s)
  case Nil
  then show ?case by (simp add: dotted_def split_on_none)
next
  case (Cons t segs)
  have "split_on CHR ''.'' (s @ CHR ''.'' # (t @ dotted segs)) = s # split_on CHR ''.'' (t @ dotted segs)"
    using Cons.prems(1) by (rule split_on_sep)
  moreover have "split_on CHR ''.'' (t @ dotted segs) = t # segs"
    using Cons.prems(2) by (intro Cons.IH) auto
  ultimately show ?case by (simp add: dotted_def)
qed

lemma lstrip_dotted:
  "s \<noteq> [] \<Longrightarrow> CHR ''.'' \<notin> set s \<Longrightarrow> lstrip CHR ''.'' (dotted (s # segs)) = s @ dotted segs"
  by (cases s) (auto simp: lstrip_def dotted_def)

lemma getkey_dotted:
  assumes "s \<noteq> []" and "CHR ''.'' \<notin> set s" and "\<forall>t \<in> set segs. CHR ''.'' \<notin> set t"
  shows "split_on CHR ''.'' (lstrip CHR ''.'' (dotted (s # segs))) = s # segs"
  using assms by (simp add: lstrip_dotted split_on_dotted)

lemma digit_char_cases: "digit_char d \<in> set ''0123456789''"
proof -
  have "d mod 10 < length ''0123456789''" by simp
  then show ?thesis unfolding digit_char_def by (rule nth_mem)
qed

lemma str_nat_digits: "set (str_nat n) \<subseteq> set ''0123456789''"
proof (induction n rule: str_nat.induct)
  case (1 n)
  show ?case
  proof (cases "n < 10")
    case True
    then show ?thesis using digit_char_cases [of n] by (subst str_nat.simps) simp
  next
    case False
    with 1 have "set (str_nat (n div 10)) \<subseteq> set ''0123456789''" by simp
    with False show ?thesis using digit_char_cases [of n] by (subst str_nat.simps) simp
  qed
qed

lemma str_nat_no_dot: "CHR ''.'' \<notin> set (str_nat n)"
  using str_nat_digits [of n] by auto

lemma nest_step_key: "CHR ''['' \<notin> set k \<Longrightarrow> nest_step k ret = JObj [(k, ret)]"
  by (simp add: nest_step_def)

lemma takeWhile_before: "c \<notin> set k \<Longrightarrow> takeWhile (\<lambda>x. x \<noteq> c) (k @ c # r) = k"
  by (induction k) auto

lemma nest_step_index:
  "CHR ''['' \<notin> set k \<Longrightarrow> nest_step (k @ ''['' @ str_nat i @ '']'') ret = JObj [(k, JArr [ret])]"
  by (simp add: nest_step_def takeWhile_before)

lemma foldr_nest_step_keys:
  "\<forall>k \<in> set ks. CHR ''['' \<notin> set k \<Longrightarrow> foldr nest_step (ks @ segs) v = nest_path ks (foldr nest_step segs v)"
  by (induction ks) (simp_all add: nest_path_def nest_step_key)

lemma nest_path_snoc: "nest_path (ks @ [k]) v = nest_path ks (JObj [(k, v)])"
  by (simp add: nest_path_def)
lemma getkey_path:
  assumes "segs \<noteq> []" and "\<forall>t \<in> set segs. t \<noteq> [] \<and> CHR ''.'' \<notin> set t"
  shows "split_on CHR ''.'' (lstrip CHR ''.'' (dotted segs)) = segs"
proof (cases segs)
  case Nil
  with assms(1) show ?thesis by simp
next
  case (Cons s rest)
  with assms(2) show ?thesis by (simp add: getkey_dotted)
qed

lemma dotted_snoc: "dotted (ks @ [k]) = dotted ks @ ''.'' @ k"
  by (simp add: dotted_def)

subsection \<open>The fragment of each extracted unit\<close>

lemma leaf_unit_value:
  "is_leaf v \<Longrightarrow>
   getvalue (setid p (JsonUnit_init JsonNestedUnit ident (PJson v) it JNull JNull)) =
     Inr (foldr nest_step (split_on CHR ''.'' (lstrip CHR ''.'' p)) v)"
  by (cases v)
     (simp_all add: getvalue_def setid_def JsonUnit_init_def base_unit_def base_init_def
        JsonNestedUnit_getvalue_def JsonNestedUnit_getkey_def converttarget_def Let_def)

lemma key_ok_path:
  "\<forall>k \<in> set ks. key_ok k \<Longrightarrow> \<forall>t \<in> set ks. t \<noteq> [] \<and> CHR ''.'' \<notin> set t"
  by (simp add: key_ok_def)

lemma member_unit_value:
  assumes ks: "\<forall>t \<in> set ks. key_ok t" and k: "key_ok k" and v: "is_leaf v"
  shows "getvalue (setid (dotted ks @ ''.'' @ k)
                     (JsonUnit_init JsonNestedUnit ident (PJson v) it JNull JNull)) =
         Inr (nest_path ks (JObj [(k, v)]))"
proof -
  have p: "\<forall>t \<in> set (ks @ [k]). t \<noteq> [] \<and> CHR ''.'' \<notin> set t"
    using ks k by (simp add: key_ok_def)
  have g: "split_on CHR ''.'' (lstrip CHR ''.'' (dotted (ks @ [k]))) = ks @ [k]"
    by (rule getkey_path [OF _ p]) simp
  have b: "\<forall>t \<in> set ks. CHR ''['' \<notin> set t" using ks by (simp add: key_ok_def)
  have kb: "CHR ''['' \<notin> set k" using k by (simp add: key_ok_def)
  have "foldr nest_step (ks @ [k]) v = nest_path ks (JObj [(k, v)])"
    by (simp only: foldr_nest_step_keys [OF b] foldr.simps comp_def id_def nest_step_key [OF kb])
  with g show ?thesis
    unfolding dotted_snoc [symmetric] by (simp only: leaf_unit_value [OF v])
qed

lemma element_unit_value:
  assumes ks: "\<forall>t \<in> set ks. key_ok t" and k: "key_ok k" and v: "is_leaf v"
  shows "getvalue (setid ((dotted ks @ ''.'' @ k) @ ''['' @ str_nat i @ '']'')
                     (JsonUnit_init JsonNestedUnit ident (PJson v) it JNull JNull)) =
         Inr (nest_path ks (JObj [(k, JArr [v])]))"
proof -
  let ?seg = "k @ ''['' @ str_nat i @ '']''"
  have d: "(dotted ks @ ''.'' @ k) @ ''['' @ str_nat i @ '']'' = dotted (ks @ [?seg])"
    by (simp add: dotted_def)
  have p: "\<forall>t \<in> set (ks @ [?seg]). t \<noteq> [] \<and> CHR ''.'' \<notin> set t"
    using ks k by (simp add: key_ok_def str_nat_no_dot)
  have g: "split_on CHR ''.'' (lstrip CHR ''.'' (dotted (ks @ [?seg]))) = ks @ [?seg]"
    by (rule getkey_path [OF _ p]) simp
  have b: "\<forall>t \<in> set ks. CHR ''['' \<notin> set t" using ks by (simp add: key_ok_def)
  have kb: "CHR ''['' \<notin> set k" using k by (simp add: key_ok_def)
  have "foldr nest_step (ks @ [?seg]) v = nest_path ks (JObj [(k, JArr [v])])"
    by (simp only: foldr_nest_step_keys [OF b] foldr.simps comp_def id_def nest_step_index [OF kb])
  with g show ?thesis
    unfolding d by (simp only: leaf_unit_value [OF v])
qed

lemma extract_leaf:
  "is_leaf v \<Longrightarrow>
   extract_units cls ident v None prev name_node name_last_node last_node =
     [setid prev (JsonUnit_init cls ident (PJson v) (map_option ItOne name_node) JNull JNull)]"
  by (cases v) (simp_all add: passes_filter_def)

lemma element_fragments:
  assumes ks: "\<forall>t \<in> set ks. key_ok t" and k: "key_ok k"
  shows "list_all is_leaf xs \<Longrightarrow>
     map getvalue (extract_list JsonNestedUnit ident xs i None (dotted ks @ ''.'' @ k) (Some (KStr k))) =
     map (\<lambda>f. Inr (nest_path ks (JObj f))) (map (\<lambda>x. [(k, JArr [x])]) xs)"
proof (induction xs arbitrary: i)
  case Nil
  then show ?case by simp
next
  case (Cons x xs)
  then have x: "is_leaf x" and xs: "list_all is_leaf xs" by simp_all
  show ?case
    using element_unit_value [OF ks k x, where ident = ident and it = "Some (ItOne (KInt i))" and i = i]
      Cons.IH [OF xs, of "Suc i"]
    by (simp add: extract_leaf [OF x])
qed

lemma unit_fragments:
  "\<forall>t \<in> set ks. key_ok t \<Longrightarrow> key_ok k \<Longrightarrow> nested_ok v \<Longrightarrow>
   map getvalue (extract_units JsonNestedUnit ident v None (dotted ks @ ''.'' @ k)
                   (Some (KStr k)) None DictNode) =
   map (\<lambda>f. Inr (nest_path ks (JObj f))) (value_fragments k v)"
  and member_unit_fragments:
  "\<forall>t \<in> set ks. key_ok t \<Longrightarrow> members_ok kvs \<Longrightarrow>
   map getvalue (extract_dict JsonNestedUnit ident kvs None (dotted ks)) =
   map (\<lambda>f. Inr (nest_path ks (JObj f))) (member_fragments kvs)"
proof (induction k v and kvs arbitrary: ks and ks rule: value_fragments_member_fragments.induct)
  case (1 k kvs)
  from "1.prems" have ks': "\<forall>t \<in> set (ks @ [k]). key_ok t" and m: "members_ok kvs" by simp_all
  have "map getvalue (extract_dict JsonNestedUnit ident kvs None (dotted (ks @ [k]))) =
        map (\<lambda>f. Inr (nest_path (ks @ [k]) (JObj f))) (member_fragments kvs)"
    by (rule "1.IH" [OF ks' m])
  then show ?case
    by (simp add: dotted_snoc nest_path_snoc comp_def)
next
  case (2 k xs)
  then show ?case
    using element_fragments [of ks k xs ident 0] by simp
next
  case "3_1"
  from member_unit_value [OF "3_1.prems"(1,2)] show ?case
    by (simp add: passes_filter_def)
next
  case "3_2"
  from member_unit_value [OF "3_2.prems"(1,2)] show ?case
    by (simp add: passes_filter_def)
next
  case "3_3"
  from member_unit_value [OF "3_3.prems"(1,2)] show ?case
    by (simp add: passes_filter_def)
next
  case "3_4"
  from member_unit_value [OF "3_4.prems"(1,2)] show ?case
    by (simp add: passes_filter_def)
next
  case 4
  show ?case by simp
next
  case (5 k v kvs)
  from "5.prems" have k: "key_ok k" and v: "nested_ok v" and m: "members_ok kvs" by simp_all
  show ?case
    using "5.IH"(1) [OF "5.prems"(1) k v] "5.IH"(2) [OF "5.prems"(1) m] by simp
qed
subsection \<open>Merging the fragments of an object\<close>

lemma deep_merge_value_new: "deep_merge_value None v = v"
  by (cases v) simp_all

lemma merge_new: "k \<notin> fst ` set d \<Longrightarrow> merge d [(k, v)] = d @ [(k, v)]"
proof -
  assume k: "k \<notin> fst ` set d"
  then have "map_of d k = None" by (simp add: map_of_eq_None_iff)
  then show ?thesis
    by (simp only: merge_single deep_merge_value_new od_set_new [OF k])
qed

lemma merge_object_fragments:
  "k \<notin> fst ` set d \<Longrightarrow>
   foldl merge (d @ [(k, JObj g)]) (map (\<lambda>f. [(k, JObj f)]) fs) = d @ [(k, JObj (foldl merge g fs))]"
proof (induction fs arbitrary: g)
  case Nil
  then show ?case by simp
next
  case (Cons f fs)
  have "merge (d @ [(k, JObj g)]) [(k, JObj f)] = d @ [(k, JObj (merge g f))]"
    by (simp only: merge_single map_of_last [OF Cons.prems] deep_merge_value.simps
          od_set_last [OF Cons.prems])
  with Cons.IH [OF Cons.prems, of "merge g f"] show ?case by simp
qed

lemma value_fragments_single:
  "f \<in> set (value_fragments k v) \<Longrightarrow> \<exists>w. f = [(k, w)]"
  by (cases v) auto

lemma member_fragments_single:
  "f \<in> set (member_fragments kvs) \<Longrightarrow> \<exists>k w. f = [(k, w)]"
proof (induction kvs)
  case Nil
  then show ?case by simp
next
  case (Cons kv kvs)
  obtain k v where kv: "kv = (k, v)" by (cases kv)
  from Cons.prems kv have "f \<in> set (value_fragments k v) \<or> f \<in> set (member_fragments kvs)"
    by simp
  then show ?case
  proof
    assume "f \<in> set (value_fragments k v)"
    then show ?thesis using value_fragments_single by blast
  next
    assume "f \<in> set (member_fragments kvs)"
    then show ?thesis by (rule Cons.IH)
  qed
qed

lemma fragments_exist:
  "nested_ok v \<Longrightarrow> value_fragments k v \<noteq> []"
  and member_fragments_exist:
  "members_ok kvs \<Longrightarrow> kvs \<noteq> [] \<Longrightarrow> member_fragments kvs \<noteq> []"
proof (induction k v and kvs rule: value_fragments_member_fragments.induct)
  case (5 k v kvs)
  then show ?case by simp
qed simp_all

lemma merge_fragments:
  "k \<notin> fst ` set acc \<Longrightarrow> nested_ok v \<Longrightarrow>
   foldl merge acc (value_fragments k v) = acc @ [(k, v)]"
  and merge_member_fragments:
  "members_ok kvs \<Longrightarrow> fst ` set acc \<inter> fst ` set kvs = {} \<Longrightarrow>
   foldl merge acc (member_fragments kvs) = acc @ kvs"
proof (induction k v and kvs arbitrary: acc and acc rule: value_fragments_member_fragments.induct)
  case (1 k kvs)
  from "1.prems" have ne: "kvs \<noteq> []" and m: "members_ok kvs" by simp_all
  from member_fragments_exist [OF m ne] obtain f fs where ffs: "member_fragments kvs = f # fs"
    by (cases "member_fragments kvs") auto
  then have "f \<in> set (member_fragments kvs)" by simp
  then obtain a w where f: "f = [(a, w)]" using member_fragments_single by blast
  have start: "merge [] f = f" unfolding f using merge_new [of a "[]" w] by simp
  have "foldl merge [] (member_fragments kvs) = [] @ kvs"
    by (rule "1.IH" [OF m]) simp
  then have inner: "foldl merge f fs = kvs" by (simp add: ffs start)
  have "foldl merge acc (value_fragments k (JObj kvs)) =
        foldl merge (merge acc [(k, JObj f)]) (map (\<lambda>f. [(k, JObj f)]) fs)"
    by (simp add: ffs)
  also have "\<dots> = foldl merge (acc @ [(k, JObj f)]) (map (\<lambda>f. [(k, JObj f)]) fs)"
    by (simp only: merge_new [OF "1.prems"(1)])
  also have "\<dots> = acc @ [(k, JObj (foldl merge f fs))]"
    by (rule merge_object_fragments [OF "1.prems"(1)])
  finally show ?case by (simp only: inner)
next
  case (2 k xs)
  from "2.prems" obtain x xs' where xs: "xs = x # xs'" by (cases xs) auto
  have "foldl merge acc (value_fragments k (JArr xs)) =
        foldl merge (merge acc [(k, JArr [x])]) (map (\<lambda>x. [(k, JArr [x])]) xs')"
    by (simp add: xs)
  also have "\<dots> = foldl merge (acc @ [(k, JArr [x])]) (map (\<lambda>x. [(k, JArr [x])]) xs')"
    by (simp only: merge_new [OF "2.prems"(1)])
  also have "\<dots> = acc @ [(k, JArr ([x] @ xs'))]"
    by (rule merge_array_fragments [OF "2.prems"(1)])
  finally show ?case by (simp add: xs)
next
  case "3_1"
  then show ?case by (simp add: merge_new del: merge.simps)
next
  case "3_2"
  then show ?case by (simp add: merge_new del: merge.simps)
next
  case "3_3"
  then show ?case by (simp add: merge_new del: merge.simps)
next
  case "3_4"
  then show ?case by (simp add: merge_new del: merge.simps)
next
  case 4
  show ?case by simp
next
  case (5 k v kvs)
  from "5.prems" have k: "k \<notin> fst ` set acc" and v: "nested_ok v" and m: "members_ok kvs"
    and nk: "k \<notin> fst ` set kvs" and disj: "fst ` set acc \<inter> fst ` set kvs = {}"
    by auto
  have d2: "fst ` set (acc @ [(k, v)]) \<inter> fst ` set kvs = {}"
    using nk disj by auto
  have "foldl merge acc (member_fragments ((k, v) # kvs)) =
        foldl merge (foldl merge acc (value_fragments k v)) (member_fragments kvs)"
    by simp
  also have "\<dots> = foldl merge (acc @ [(k, v)]) (member_fragments kvs)"
    by (simp only: "5.IH"(1) [OF k v])
  also have "\<dots> = (acc @ [(k, v)]) @ kvs"
    by (rule "5.IH"(2) [OF m d2])
  finally show ?case by simp
qed

subsection \<open>Serialising what was extracted\<close>

lemma serialize_loop_fragments:
  "map getvalue us = map (\<lambda>f. Inr (JObj f)) fs \<Longrightarrow>
   serialize_loop acc us = Inr (foldl merge acc fs)"
proof (induction us arbitrary: fs acc)
  case Nil
  then show ?case by simp
next
  case (Cons u us)
  from Cons.prems obtain f fs' where fs: "fs = f # fs'" and u: "getvalue u = Inr (JObj f)"
    and rest: "map getvalue us = map (\<lambda>f. Inr (JObj f)) fs'"
    by (cases fs) auto
  show ?case by (simp add: fs u Cons.IH [OF rest])
qed

lemma nested_round_trip:
  assumes "round_trippable tree"
  shows "JsonFile_serialize (extract_units JsonNestedUnit ident tree None [] None None NoNode) =
         Inr tree"
proof -
  from assms obtain kvs where t: "tree = JObj kvs" and m: "members_ok kvs"
    by (cases tree) auto
  have "map getvalue (extract_dict JsonNestedUnit ident kvs None (dotted [])) =
        map (\<lambda>f. Inr (nest_path [] (JObj f))) (member_fragments kvs)"
    by (rule member_unit_fragments [OF _ m]) simp
  then have "map getvalue (extract_dict JsonNestedUnit ident kvs None []) =
        map (\<lambda>f. Inr (JObj f)) (member_fragments kvs)"
    by (simp add: dotted_def nest_path_def)
  then have "serialize_loop [] (extract_dict JsonNestedUnit ident kvs None []) =
        Inr (foldl merge [] (member_fragments kvs))"
    by (rule serialize_loop_fragments)
  moreover have "foldl merge [] (member_fragments kvs) = [] @ kvs"
    by (rule merge_member_fragments [OF m]) simp
  ultimately show ?thesis by (simp add: t JsonFile_serialize_def)
qed
text \<open>
  C1, as the code has it. The plain nested store rebuilds every tree of the following
  shape exactly, with the order of keys and of array elements: an object whose keys, at
  every level, are not empty and contain neither a dot nor an opening bracket, whose
  nested objects and arrays are not empty, and whose arrays hold leaves only (strings,
  integers, booleans, null). Extracting the units of such a tree without a filter and
  serialising the unedited units gives the tree back. Outside this shape the round trip
  can fail: the units of an array element that is an object are appended to the array one
  by one, an empty object or array yields no unit, and a key with a dot or a bracket is
  read back as a path.
\<close>

theorem nested_round_trip_plain_trees:
  assumes "round_trippable tree"
  shows "snd (extract_units_of JsonNestedFile ident tree None) = None \<and>
         JsonFile_serialize (fst (extract_units_of JsonNestedFile ident tree None)) = Inr tree"
  using nested_round_trip [OF assms, of ident] by (simp add: extract_units_of_def)

theorem nested_round_trip_plain_trees_witness:
  "round_trippable nested_example \<and>
   snd (extract_units_of JsonNestedFile ''0'' nested_example None) = None \<and>
   JsonFile_serialize (fst (extract_units_of JsonNestedFile ''0'' nested_example None)) =
     Inr nested_example"
proof -
  have r: "round_trippable nested_example"
    unfolding nested_example_def by (simp add: key_ok_def)
  from nested_round_trip_plain_trees [OF r, of "''0''"] r show ?thesis by simp
qed

theorem nested_round_trip_counterexample:
  "wf_json (JObj [(''a'', JArr [JObj [(''b'', JStr ''x''), (''c'', JStr ''y'')]])]) \<and>
   JsonFile_serialize (fst (extract_units_of JsonNestedFile ''0''
       (JObj [(''a'', JArr [JObj [(''b'', JStr ''x''), (''c'', JStr ''y'')]])]) None)) =
     Inr (JObj [(''a'', JArr [JObj [(''b'', JStr ''x'')], JObj [(''c'', JStr ''y'')]])]) \<and>
   JsonFile_serialize (fst (extract_units_of JsonNestedFile ''0''
       (JObj [(''a'', JArr [JObj [(''b'', JStr ''x''), (''c'', JStr ''y'')]])]) None)) \<noteq>
     Inr (JObj [(''a'', JArr [JObj [(''b'', JStr ''x''), (''c'', JStr ''y'')]])]) \<and>
   JsonFile_serialize (fst (extract_units_of JsonNestedFile ''0'' (JObj [(''a'', JObj [])]) None)) =
     Inr (JObj []) \<and>
   JsonFile_serialize (fst (extract_units_of JsonNestedFile ''0'' (JObj [(''a.b'', JStr ''x'')]) None)) =
     Inr (JObj [(''a'', JObj [(''b'', JStr ''x'')])]) \<and>
   JsonFile_serialize (fst (extract_units_of JsonNestedFile ''0'' (JObj [(''a[0]'', JStr ''x'')]) None)) =
     Inr (JObj [(''a'', JArr [JStr ''x''])]) \<and>
   JsonFile_serialize (fst (extract_units_of JsonNestedFile ''0'' (JObj [(''a'', JArr [JArr [JStr ''x'']])]) None)) =
     Inr (JObj [(''a'', JArr [JStr ''x''])]) \<and>
   JsonFile_serialize (fst (extract_units_of JsonNestedFile ''0'' (JObj [([], JObj [(''a'', JStr ''x'')])]) None)) =
     Inr (JObj [(''a'', JStr ''x'')]) \<and>
   JsonFile_serialize (fst (extract_units_of JsonNestedFile ''0'' (JArr [JStr ''x'']) None)) =
     Inr (JObj [([], JArr [JStr ''x''])])"
  by code_simp

end
